theory Spec2Isabelle
  imports Main "HOL-Library.Sublist"
begin

section \<open>Strings and paths\<close>

text \<open>
  Paths are strings, as in the TypeScript sources. The model uses the POSIX separator
  \<open>/\<close> throughout; the drive letters and backslashes of \<open>path.win32\<close> are not modelled.
\<close>

type_synonym path = string

definition startsWith :: "string \<Rightarrow> string \<Rightarrow> bool" where
  \<comment> \<open>\<open>s.startsWith(p)\<close>\<close>
  "startsWith s p = prefix p s"

fun str_includes :: "string \<Rightarrow> string \<Rightarrow> bool" where
  \<comment> \<open>\<open>s.includes(t)\<close>: \<open>t\<close> occurs in \<open>s\<close> as a contiguous substring\<close>
  "str_includes [] t = (t = [])"
| "str_includes (c # s) t = (prefix t (c # s) \<or> str_includes s t)"

definition lower_char :: "char \<Rightarrow> char" where
  \<comment> \<open>ASCII letters only; other characters are left as they are\<close>
  "lower_char c =
     (let n = of_char c :: nat in if 65 \<le> n \<and> n \<le> 90 then char_of (n + 32) else c)"

definition toLowerCase :: "string \<Rightarrow> string" where
  "toLowerCase s = map lower_char s"

definition backslash :: char where
  "backslash = CHR 0x5C"

fun win_lit :: "string list \<Rightarrow> string" where
  \<comment> \<open>a literal written with backslashes in the source: \<open>win_lit [C:, Windows]\<close> is the
      string \<open>C:\<close>, a backslash, \<open>Windows\<close>\<close>
  "win_lit [] = []"
| "win_lit [s] = s"
| "win_lit (s # t # ss) = s @ backslash # win_lit (t # ss)"

definition sep :: char where
  "sep = CHR ''/''"

definition dir_prefix :: "path \<Rightarrow> path" where
  "dir_prefix d = (if d = [] then [] else if last d = sep then d else d @ [sep])"

definition join2 :: "path \<Rightarrow> string \<Rightarrow> path" where
  \<comment> \<open>\<open>path.join(d, n)\<close> for a normalised \<open>d\<close> and a relative \<open>n\<close> without
      \<open>.\<close> and \<open>..\<close> segments: an empty \<open>d\<close> is dropped, one separator is put
      between the two unless \<open>d\<close> already ends in one\<close>
  "join2 d n = dir_prefix d @ n"

definition joinAll :: "path \<Rightarrow> string list \<Rightarrow> path" where
  \<comment> \<open>\<open>path.join(d, n1, ..., nk)\<close>\<close>
  "joinAll d ns = foldl join2 d ns"

definition dirname :: "path \<Rightarrow> path" where
  \<comment> \<open>\<open>path.dirname\<close> of an absolute path without trailing separator\<close>
  "dirname p =
     (let d = rev (drop 1 (dropWhile (\<lambda>c. c \<noteq> sep) (rev p)))
      in if d = [] then [sep] else d)"

definition basename :: "path \<Rightarrow> string" where
  \<comment> \<open>\<open>path.basename\<close>: trailing separators are dropped, then the last segment is taken\<close>
  "basename p = rev (takeWhile (\<lambda>c. c \<noteq> sep) (dropWhile (\<lambda>c. c = sep) (rev p)))"

definition extname :: "string \<Rightarrow> string" where
  \<comment> \<open>\<open>path.extname\<close> of a file name (no separator in it): from the last dot on; empty when
      there is no dot, when the last dot is the first character, or when the name is \<open>..\<close>\<close>
  "extname name =
     (let e = rev (takeWhile (\<lambda>c. c \<noteq> CHR ''.'') (rev name))
      in if CHR ''.'' \<notin> set name then []
         else if length e + 1 = length name then []
         else if name = ''..'' then []
         else CHR ''.'' # e)"

definition parse_name :: "string \<Rightarrow> string" where
  \<comment> \<open>\<open>path.parse(fileName).name\<close>: the file name without its extension\<close>
  "parse_name name = take (length name - length (extname name)) name"

section \<open>Exceptions\<close>

datatype thrown = Error string | NonError

fun message :: "thrown \<Rightarrow> string" where
  \<comment> \<open>\<open>error instanceof Error ? error.message : 'Unknown error'\<close>\<close>
  "message (Error m) = m"
| "message NonError = ''Unknown error''"

section \<open>The file system (\<open>fs-extra\<close>)\<close>

text \<open>
  The file system is a table from absolute paths to nodes. A node records what
  \<open>fs.stat\<close> reports (kind, size, modification time in milliseconds) and two permission
  bits: \<open>n_writable\<close> is what \<open>fs.access(p, W_OK)\<close> tests (and, for a directory, whether
  entries may be unlinked from it or created in it), \<open>n_readable\<close> is whether
  \<open>fs.readdir\<close> may list a directory. \<open>fs.stat\<close> and \<open>fs.access\<close> follow symbolic links:
  for an entry that is a symbolic link, \<open>n_link\<close> is set and the other fields describe the
  target of the link. The \<open>Dirent\<close> objects of \<open>fs.readdir(p, { withFileTypes: true })\<close>
  describe the entry itself: for a symbolic link both \<open>isFile()\<close> and \<open>isDirectory()\<close> are
  false, whatever the target is.
\<close>

datatype kind = RegularFile | Directory | Other

record node =
  n_kind :: kind
  n_size :: nat
  n_mtime :: int
  n_writable :: bool
  n_readable :: bool
  n_link :: bool

type_synonym filesystem = "(path \<times> node) list"

definition lookup :: "filesystem \<Rightarrow> path \<Rightarrow> node option" where
  "lookup fsys p = map_of fsys p"

definition stat :: "filesystem \<Rightarrow> path \<Rightarrow> thrown + node" where
  "stat fsys p =
     (case lookup fsys p of
        None \<Rightarrow> Inl (Error (''ENOENT: no such file or directory, stat '' @ p))
      | Some n \<Rightarrow> Inr n)"

definition access_F :: "filesystem \<Rightarrow> path \<Rightarrow> thrown + unit" where
  \<comment> \<open>\<open>fs.access(p)\<close>\<close>
  "access_F fsys p =
     (case lookup fsys p of
        None \<Rightarrow> Inl (Error (''ENOENT: no such file or directory, access '' @ p))
      | Some n \<Rightarrow> Inr ())"

definition access_W :: "filesystem \<Rightarrow> path \<Rightarrow> thrown + unit" where
  \<comment> \<open>\<open>fs.access(p, fs.constants.W_OK)\<close>\<close>
  "access_W fsys p =
     (case lookup fsys p of
        None \<Rightarrow> Inl (Error (''ENOENT: no such file or directory, access '' @ p))
      | Some n \<Rightarrow>
          if n_writable n then Inr ()
          else Inl (Error (''EACCES: permission denied, access '' @ p)))"

definition below :: "path \<Rightarrow> path \<Rightarrow> bool" where
  \<comment> \<open>\<open>q\<close> lies strictly below the directory \<open>p\<close>\<close>
  "below p q = (prefix (dir_prefix p) q \<and> length (dir_prefix p) < length q)"

definition purge :: "filesystem \<Rightarrow> path \<Rightarrow> filesystem" where
  "purge fsys p = filter (\<lambda>(q, n). q \<noteq> p \<and> \<not> below p q) fsys"

definition remove :: "filesystem \<Rightarrow> path \<Rightarrow> thrown + filesystem" where
  \<comment> \<open>\<open>fs.remove(p)\<close>: removes a file, or a directory with everything below it; a path that
      does not exist is not an error; unlinking needs a writable parent directory\<close>
  "remove fsys p =
     (case lookup fsys p of
        None \<Rightarrow> Inr fsys
      | Some n \<Rightarrow>
          (case lookup fsys (dirname p) of
             None \<Rightarrow> Inr (purge fsys p)
           | Some d \<Rightarrow>
               if n_writable d then Inr (purge fsys p)
               else Inl (Error (''EACCES: permission denied, unlink '' @ p))))"

definition child_name :: "path \<Rightarrow> path \<Rightarrow> string list" where
  "child_name p q =
     (if below p q \<and> sep \<notin> set (drop (length (dir_prefix p)) q)
      then [drop (length (dir_prefix p)) q] else [])"

definition children :: "filesystem \<Rightarrow> path \<Rightarrow> string list" where
  "children fsys p = remdups (concat (map (\<lambda>(q, n). child_name p q) fsys))"

definition readdir :: "filesystem \<Rightarrow> path \<Rightarrow> thrown + string list" where
  \<comment> \<open>\<open>fs.readdir(p)\<close>\<close>
  "readdir fsys p =
     (case lookup fsys p of
        None \<Rightarrow> Inl (Error (''ENOENT: no such file or directory, scandir '' @ p))
      | Some n \<Rightarrow>
          if n_kind n \<noteq> Directory then Inl (Error (''ENOTDIR: not a directory, scandir '' @ p))
          else if \<not> n_readable n then Inl (Error (''EACCES: permission denied, scandir '' @ p))
          else Inr (children fsys p))"

record dirent =
  d_name :: string
  d_kind :: kind

definition dirent_kind :: "node \<Rightarrow> kind" where
  \<comment> \<open>what \<open>isFile()\<close> and \<open>isDirectory()\<close> of the \<open>Dirent\<close> tell: the kind of the entry
      itself, a symbolic link being neither a file nor a directory\<close>
  "dirent_kind n = (if n_link n then Other else n_kind n)"

definition readdir_withFileTypes :: "filesystem \<Rightarrow> path \<Rightarrow> thrown + dirent list" where
  \<comment> \<open>\<open>fs.readdir(p, { withFileTypes: true })\<close>\<close>
  "readdir_withFileTypes fsys p =
     (case readdir fsys p of
        Inl e \<Rightarrow> Inl e
      | Inr names \<Rightarrow>
          Inr (map (\<lambda>nm. \<lparr>d_name = nm,
                         d_kind = (case lookup fsys (join2 p nm) of
                                     None \<Rightarrow> Other | Some n \<Rightarrow> dirent_kind n)\<rparr>) names))"

definition dir_writable :: "filesystem \<Rightarrow> path \<Rightarrow> bool" where
  \<comment> \<open>entries may be created in or unlinked from \<open>d\<close>; a directory the table does not
      list is taken to allow it\<close>
  "dir_writable fsys d = (case lookup fsys d of None \<Rightarrow> True | Some n \<Rightarrow> n_writable n)"

definition new_dir :: "int \<Rightarrow> node" where
  "new_dir t =
     \<lparr>n_kind = Directory, n_size = 4096, n_mtime = t, n_writable = True, n_readable = True,
      n_link = False\<rparr>"

function ensureDir :: "int \<Rightarrow> filesystem \<Rightarrow> path \<Rightarrow> thrown + filesystem" where
  \<comment> \<open>\<open>fs.ensureDir(p)\<close> at time \<open>t\<close>: creates \<open>p\<close> and the directories above it that are
      missing\<close>
  "ensureDir t fsys p =
     (case lookup fsys p of
        Some n \<Rightarrow>
          if n_kind n = Directory then Inr fsys
          else Inl (Error (''EEXIST: file already exists, mkdir '' @ p))
      | None \<Rightarrow>
          if length (dirname p) < length p then
            (case ensureDir t fsys (dirname p) of
               Inl e \<Rightarrow> Inl e
             | Inr fsys' \<Rightarrow>
                 if dir_writable fsys' (dirname p) then Inr (fsys' @ [(p, new_dir t)])
                 else Inl (Error (''EACCES: permission denied, mkdir '' @ p)))
          else Inr (fsys @ [(p, new_dir t)]))"
  by pat_completeness auto
termination
  by (relation "measure (\<lambda>(t, fsys, p). length p)") auto

declare ensureDir.simps [simp del]

definition rename_path :: "path \<Rightarrow> path \<Rightarrow> path \<Rightarrow> path" where
  "rename_path src dest q =
     (if q = src then dest
      else if below src q then join2 dest (drop (length (dir_prefix src)) q)
      else q)"

definition move :: "int \<Rightarrow> filesystem \<Rightarrow> path \<Rightarrow> path \<Rightarrow> thrown + filesystem" where
  \<comment> \<open>\<open>fs.move(src, dest)\<close> without \<open>overwrite\<close>: fails when \<open>src\<close> is missing or \<open>dest\<close>
      exists; creates the directory of \<open>dest\<close>; needs both directories writable. A failed
      move leaves the table as it was.\<close>
  "move t fsys src dest =
     (case lookup fsys src of
        None \<Rightarrow> Inl (Error (''ENOENT: no such file or directory, lstat '' @ src))
      | Some n \<Rightarrow>
          if lookup fsys dest \<noteq> None then Inl (Error ''dest already exists.'')
          else
            (case ensureDir t fsys (dirname dest) of
               Inl e \<Rightarrow> Inl e
             | Inr fsys' \<Rightarrow>
                 if dir_writable fsys' (dirname src) \<and> dir_writable fsys' (dirname dest)
                 then Inr (map (\<lambda>(q, n). (rename_path src dest q, n)) fsys')
                 else Inl (Error (''EACCES: permission denied, rename '' @ src))))"

section \<open>Configuration and context\<close>

record browsers_config =
  chrome :: bool
  firefox :: bool
  edge :: bool
  safari :: bool

record organize_config =
  enabled :: bool
  categories :: "(string \<times> string list) list"
    \<comment> \<open>the entries of the category object, in the order \<open>Object.entries\<close> yields them
        (the order of declaration, for names that are not array indices)\<close>

record CleanupConfig =
  largeFileThreshold :: int
  customTempPaths :: "path list"
  customCachePaths :: "path list"
  downloadsPath :: path
  exclusions :: "string list"
  browsers :: browsers_config
  organizeDownloads :: organize_config
  confirmDeletions :: bool
  backupBeforeDelete :: bool
  maxFileAge :: int

datatype os_type = Windows | MacOS | Linux

text \<open>
  What a cleaner object holds besides its error list (\<open>config\<close>, \<open>dryRun\<close>) and what it
  reads from the process: \<open>OSDetector.getOS()\<close>, \<open>OSDetector.getHomeDirectory()\<close>,
  \<open>OSDetector.getTempDirectory()\<close>, two environment variables and \<open>Date.now()\<close>. The
  \<open>debug\<close> flag only adds console output and is left out.
\<close>

record ctx =
  config :: CleanupConfig
  dryRun :: bool
  osType :: os_type
  homeDir :: path
  tempDir :: path
  localAppData :: string \<comment> \<open>\<open>process.env.LOCALAPPDATA || ''\<close>\<close>
  appData :: string \<comment> \<open>\<open>process.env.APPDATA || ''\<close>\<close>
  now :: int

text \<open>The mutable part: the file system and the cleaner's \<open>errors\<close> array.\<close>

record state =
  fs :: filesystem
  errors :: "string list"

section \<open>BaseCleaner\<close>

record del_result =
  deleted :: bool
  size_bytes :: nat \<comment> \<open>the field \<open>size\<close>\<close>

definition getFileSize :: "filesystem \<Rightarrow> path \<Rightarrow> nat" where
  "getFileSize fsys filePath =
     (case stat fsys filePath of Inl e \<Rightarrow> 0 | Inr stats \<Rightarrow> n_size stats)"

definition deleteFile_try :: "ctx \<Rightarrow> filesystem \<Rightarrow> path \<Rightarrow> thrown + (del_result \<times> filesystem)" where
  \<comment> \<open>the \<open>try\<close> block of \<open>deleteFile\<close>\<close>
  "deleteFile_try c fsys filePath =
     (let sz = getFileSize fsys filePath in
      if \<not> dryRun c then
        (case access_W fsys filePath of
           Inl e \<Rightarrow> Inl e
         | Inr u \<Rightarrow>
             (case remove fsys filePath of
                Inl e \<Rightarrow> Inl e
              | Inr fsys' \<Rightarrow> Inr (\<lparr>deleted = True, size_bytes = sz\<rparr>, fsys')))
      else Inr (\<lparr>deleted = True, size_bytes = sz\<rparr>, fsys))"

definition deleteFile :: "ctx \<Rightarrow> state \<Rightarrow> path \<Rightarrow> del_result \<times> state" where
  "deleteFile c st filePath =
     (case deleteFile_try c (fs st) filePath of
        Inr (r, fsys') \<Rightarrow> (r, st\<lparr>fs := fsys'\<rparr>)
      | Inl e \<Rightarrow>
          (\<lparr>deleted = False, size_bytes = 0\<rparr>,
           st\<lparr>errors := errors st @ [''Failed to delete '' @ filePath @ '': '' @ message e]\<rparr>))"

definition isFileOldEnough :: "ctx \<Rightarrow> filesystem \<Rightarrow> path \<Rightarrow> int \<Rightarrow> bool" where
  \<comment> \<open>times are whole milliseconds and ages whole days: below \<open>2^53\<close> the arithmetic of the
      source's numbers is exact\<close>
  "isFileOldEnough c fsys filePath maxAgeInDays =
     (if maxAgeInDays = 0 then True
      else (case stat fsys filePath of
              Inl e \<Rightarrow> False
            | Inr stats \<Rightarrow>
                (let fileAge = now c - n_mtime stats;
                     maxAge = maxAgeInDays * 24 * 60 * 60 * 1000
                 in fileAge > maxAge)))"

definition pathExists :: "filesystem \<Rightarrow> path \<Rightarrow> bool" where
  "pathExists fsys p = (case access_F fsys p of Inl e \<Rightarrow> False | Inr u \<Rightarrow> True)"

definition key_bound :: "filesystem \<Rightarrow> nat" where
  \<comment> \<open>no path of the table is longer than this\<close>
  "key_bound fsys = sum_list (map (\<lambda>(q, n). length q) fsys)"

function getDirectorySize :: "filesystem \<Rightarrow> path \<Rightarrow> nat" where
  "getDirectorySize fsys dirPath =
     (case readdir fsys dirPath of
        Inl e \<Rightarrow> 0
      | Inr items \<Rightarrow>
          (case fold (\<lambda>item acc.
                       case acc of
                         Inl e \<Rightarrow> Inl e
                       | Inr totalSize \<Rightarrow>
                           (case stat fsys (join2 dirPath item) of
                              Inl e \<Rightarrow> Inl e
                            | Inr stats \<Rightarrow>
                                if n_kind stats = Directory
                                then Inr (totalSize + getDirectorySize fsys (join2 dirPath item))
                                else Inr (totalSize + n_size stats)))
                     items (Inr 0 :: thrown + nat)
           of Inl e \<Rightarrow> 0 | Inr totalSize \<Rightarrow> totalSize))"
  by pat_completeness auto

lemma key_bound_ge: "map_of fsys q = Some n \<Longrightarrow> length q \<le> key_bound fsys"
  by (induction fsys) (auto simp: key_bound_def split: if_splits)

lemma children_longer:
  assumes "item \<in> set (children fsys p)"
  shows "length p < length (join2 p item)"
proof -
  from assms obtain q where "item \<in> set (child_name p q)"
    by (auto simp: children_def)
  then have "below p q" and "item = drop (length (dir_prefix p)) q"
    by (auto simp: child_name_def split: if_splits)
  then have "item \<noteq> []" by (auto simp: below_def)
  then show ?thesis by (auto simp: join2_def dir_prefix_def)
qed

termination getDirectorySize
proof (relation "measure (\<lambda>(fsys, p). Suc (key_bound fsys) - length p)", goal_cases)
  case 1
  show ?case by simp
next
  case (2 fsys dirPath items item acc stats)
  from 2(1,2) have "item \<in> set (children fsys dirPath)"
    by (auto simp: readdir_def split: option.splits if_splits)
  then have lt: "length dirPath < length (join2 dirPath item)"
    by (rule children_longer)
  from 2(3) have "length (join2 dirPath item) \<le> key_bound fsys"
    by (auto simp: stat_def lookup_def split: option.splits intro: key_bound_ge)
  with lt show ?case by simp
qed

declare getDirectorySize.simps [simp del]

definition deleteDirectory_try :: "ctx \<Rightarrow> filesystem \<Rightarrow> path \<Rightarrow> thrown + (del_result \<times> filesystem)" where
  \<comment> \<open>the \<open>try\<close> block of \<open>deleteDirectory\<close>\<close>
  "deleteDirectory_try c fsys dirPath =
     (let sz = getDirectorySize fsys dirPath in
      if \<not> dryRun c then
        (case remove fsys dirPath of
           Inl e \<Rightarrow> Inl e
         | Inr fsys' \<Rightarrow> Inr (\<lparr>deleted = True, size_bytes = sz\<rparr>, fsys'))
      else Inr (\<lparr>deleted = True, size_bytes = sz\<rparr>, fsys))"

definition deleteDirectory :: "ctx \<Rightarrow> state \<Rightarrow> path \<Rightarrow> del_result \<times> state" where
  "deleteDirectory c st dirPath =
     (case deleteDirectory_try c (fs st) dirPath of
        Inr (r, fsys') \<Rightarrow> (r, st\<lparr>fs := fsys'\<rparr>)
      | Inl e \<Rightarrow>
          (\<lparr>deleted = False, size_bytes = 0\<rparr>,
           st\<lparr>errors := errors st @
                 [''Failed to delete directory '' @ dirPath @ '': '' @ message e]\<rparr>))"

definition isDirectoryEmpty :: "filesystem \<Rightarrow> path \<Rightarrow> bool" where
  \<comment> \<open>the private helper repeated in TempCleaner, CacheCleaner, BrowserCleaner and TrashCleaner\<close>
  "isDirectoryEmpty fsys dirPath =
     (case readdir fsys dirPath of Inl e \<Rightarrow> False | Inr items \<Rightarrow> length items = 0)"

section \<open>The glob engine (\<open>fast-glob\<close>)\<close>

text \<open>
  Patterns are matched segment by segment. Inside a segment \<open>*\<close> stands for any run of
  characters; a whole segment \<open>**\<close> stands for any number of segments. Unless \<open>dot\<close> is
  set, neither matches a name that starts with a dot (a dot written in the pattern does).
  Other glob syntax (\<open>?\<close>, brackets, braces, parentheses) is not modelled: such a character
  stands for itself, also in the fixed leading part of a pattern. Symbolic links are
  followed, so an entry counts as what \<open>fs.stat\<close> reports. An entry is listed when it
  lies below the fixed leading part of a positive pattern, matches that pattern, and
  neither it nor a directory above it (below that leading part) matches an \<open>ignore\<close>
  pattern; \<open>ignore\<close> patterns are globs matched against the whole path, with \<open>dot\<close> set.
  Results are absolute, without duplicates, in the order of the file table. The engine
  rejects an empty pattern; its permission failures are not modelled.
\<close>

fun split_on :: "char \<Rightarrow> string \<Rightarrow> string list" where
  "split_on c [] = [[]]"
| "split_on c (x # xs) =
     (if x = c then [] # split_on c xs
      else (case split_on c xs of [] \<Rightarrow> [[x]] | s # ss \<Rightarrow> (x # s) # ss))"

definition star :: char where
  "star = CHR ''*''"

fun wild :: "string \<Rightarrow> string \<Rightarrow> bool" where
  "wild [] n = (n = [])"
| "wild (c # p) [] = (c = star \<and> wild p [])"
| "wild (c # p) (x # n) =
     (if c = star then wild p (x # n) \<or> wild (c # p) n else c = x \<and> wild p n)"

definition hidden :: "string \<Rightarrow> bool" where
  "hidden n = startsWith n ''.''"

definition seg_match :: "bool \<Rightarrow> string \<Rightarrow> string \<Rightarrow> bool" where
  "seg_match dot p n =
     (if n = [] then p = []
      else wild p n \<and> (if dot then True else if hidden n then hidden p else True))"

fun segs_match :: "bool \<Rightarrow> string list \<Rightarrow> string list \<Rightarrow> bool" where
  "segs_match dot [] ns = (ns = [])"
| "segs_match dot (p # ps) [] = (p = ''**'' \<and> segs_match dot ps [])"
| "segs_match dot (p # ps) (n # ns) =
     (if p = ''**''
      then segs_match dot ps (n # ns) \<or>
           ((if dot then True else \<not> hidden n) \<and> segs_match dot (p # ps) ns)
      else seg_match dot p n \<and> segs_match dot ps ns)"

definition pattern_segs :: "string \<Rightarrow> string list \<times> bool" where
  \<comment> \<open>the segments of a pattern, and whether it ends in a separator (then it matches
      directories only)\<close>
  "pattern_segs pat =
     (let ps = split_on sep pat
      in if 1 < length ps \<and> last ps = [] then (butlast ps, True) else (ps, False))"

definition pattern_match :: "bool \<Rightarrow> string \<Rightarrow> string list \<Rightarrow> bool \<Rightarrow> bool" where
  "pattern_match dot pat es isDir =
     (case pattern_segs pat of (ps, dirOnly) \<Rightarrow>
        segs_match dot ps es \<and> (if dirOnly then isDir else True))"

definition base_len :: "string \<Rightarrow> nat" where
  \<comment> \<open>the number of leading segments free of wildcards: the directory the search starts in\<close>
  "base_len pat =
     (case pattern_segs pat of (ps, dirOnly) \<Rightarrow>
        length (takeWhile (\<lambda>s. star \<notin> set s) (butlast ps)))"

record glob_options =
  g_ignore :: "string list"
  g_onlyFiles :: bool
  g_onlyDirectories :: bool

definition ignored :: "string list \<Rightarrow> nat \<Rightarrow> string list \<Rightarrow> bool \<Rightarrow> bool" where
  "ignored negs b es isDir =
     list_ex (\<lambda>neg.
        list_ex (\<lambda>j. pattern_match True neg (take j es) (if j < length es then True else isDir))
          [Suc b ..< Suc (length es)]) negs"

definition entry_found :: "glob_options \<Rightarrow> string list \<Rightarrow> path \<Rightarrow> kind \<Rightarrow> bool" where
  "entry_found opts patterns q k =
     (let es = split_on sep q; isDir = (k = Directory) in
      (if g_onlyDirectories opts then isDir
       else if g_onlyFiles opts then k = RegularFile else True) \<and>
      list_ex (\<lambda>pat. pattern_match False pat es isDir \<and> base_len pat < length es \<and>
                     \<not> ignored (g_ignore opts) (base_len pat) es isDir) patterns)"

definition glob :: "filesystem \<Rightarrow> string list \<Rightarrow> glob_options \<Rightarrow> thrown + path list" where
  "glob fsys patterns opts =
     (if [] \<in> set patterns
      then Inl (Error ''Patterns must be a string (non empty) or an array of strings'')
      else Inr (remdups (map fst (filter (\<lambda>(q, n). entry_found opts patterns q (n_kind n)) fsys))))"

definition slashes :: "string \<Rightarrow> string" where
  \<comment> \<open>\<open>pattern.replace\<close> of every backslash by \<open>/\<close>\<close>
  "slashes s = map (\<lambda>c. if c = backslash then sep else c) s"

definition findFiles :: "ctx \<Rightarrow> state \<Rightarrow> string list \<Rightarrow> string list \<Rightarrow> path list \<times> state" where
  "findFiles c st patterns excludePatterns =
     (let normalizedPatterns = map slashes patterns;
          normalizedExcludes = map slashes excludePatterns;
          normalizedConfigExclusions = map slashes (exclusions (config c))
      in case glob (fs st) normalizedPatterns
                \<lparr>g_ignore = normalizedExcludes @ normalizedConfigExclusions,
                 g_onlyFiles = True, g_onlyDirectories = False\<rparr> of
           Inr files \<Rightarrow> (files, st)
         | Inl e \<Rightarrow>
             ([], st\<lparr>errors := errors st @ [''Failed to find files: '' @ message e]\<rparr>))"

definition findDirectories :: "ctx \<Rightarrow> state \<Rightarrow> string list \<Rightarrow> string list \<Rightarrow> path list \<times> state" where
  "findDirectories c st patterns excludePatterns =
     (case glob (fs st) patterns
             \<lparr>g_ignore = excludePatterns @ exclusions (config c),
              g_onlyFiles = False, g_onlyDirectories = True\<rparr> of
        Inr dirs \<Rightarrow> (dirs, st)
      | Inl e \<Rightarrow>
          ([], st\<lparr>errors := errors st @ [''Failed to find directories: '' @ message e]\<rparr>))"

section \<open>Results\<close>

record counts =
  filesDeleted :: nat
  spaceSaved :: nat

record CleanupResult = counts +
  task :: string
  filesOrganized :: "nat option"
  largeFiles :: "(path \<times> nat) list option"
  res_errors :: "string list" \<comment> \<open>the field \<open>errors\<close>\<close>

definition no_counts :: counts where
  "no_counts = \<lparr>filesDeleted = 0, spaceSaved = 0\<rparr>"

definition add_counts :: "counts \<Rightarrow> counts \<Rightarrow> counts" where
  \<comment> \<open>\<open>filesDeleted += result.filesDeleted; spaceSaved += result.spaceSaved\<close>\<close>
  "add_counts a b =
     \<lparr>filesDeleted = filesDeleted a + filesDeleted b, spaceSaved = spaceSaved a + spaceSaved b\<rparr>"

section \<open>The loops shared by the cleaners\<close>

definition delete_step :: "ctx \<Rightarrow> bool \<Rightarrow> path \<Rightarrow> counts \<times> state \<Rightarrow> counts \<times> state" where
  \<comment> \<open>the body of \<open>for (const file of files)\<close>: with \<open>aged\<close> the deletion is guarded by
      \<open>isFileOldEnough(file, config.maxFileAge)\<close> (temp, cache, browser), without it is not
      (trash)\<close>
  "delete_step c aged file acc =
     (case acc of (cnt, st) \<Rightarrow>
        if aged \<longrightarrow> isFileOldEnough c (fs st) file (maxFileAge (config c)) then
          (case deleteFile c st file of (result, st') \<Rightarrow>
             if deleted result
             then (\<lparr>filesDeleted = filesDeleted cnt + 1,
                    spaceSaved = spaceSaved cnt + size_bytes result\<rparr>, st')
             else (cnt, st'))
        else (cnt, st))"

definition rmdir_step :: "ctx \<Rightarrow> path \<Rightarrow> counts \<times> state \<Rightarrow> counts \<times> state" where
  \<comment> \<open>the body of \<open>for (const dir of dirs)\<close>: an empty directory is deleted and counted
      as one file\<close>
  "rmdir_step c dir acc =
     (case acc of (cnt, st) \<Rightarrow>
        if isDirectoryEmpty (fs st) dir then
          (case deleteDirectory c st dir of (result, st') \<Rightarrow>
             if deleted result
             then (cnt\<lparr>filesDeleted := filesDeleted cnt + 1\<rparr>, st')
             else (cnt, st'))
        else (cnt, st))"

section \<open>TempCleaner\<close>

definition getTempPaths :: "ctx \<Rightarrow> path list" where
  "getTempPaths c =
     filter (\<lambda>p. p \<noteq> [])
       ([tempDir c] @
        (case osType c of
           Windows \<Rightarrow>
             [join2 (localAppData c) ''Temp'',
              joinAll (appData c) [''Local'', ''Temp''],
              win_lit [''C:'', ''Windows'', ''Temp''],
              win_lit [''C:'', ''Windows'', ''SoftwareDistribution'', ''Download''],
              win_lit [''C:'', ''Windows'', ''Prefetch'']]
         | MacOS \<Rightarrow>
             [''/tmp'', joinAll (homeDir c) [''Library'', ''Caches''], ''/var/tmp'', ''/private/tmp'']
         | Linux \<Rightarrow>
             [''/tmp'', ''/var/tmp'', join2 (homeDir c) ''.cache'']) @
        customTempPaths (config c))"

definition tempFilePatterns :: "path \<Rightarrow> string list" where
  "tempFilePatterns tempPath =
     [join2 tempPath ''*.tmp'',
      join2 tempPath ''*.temp'',
      join2 tempPath ''*~'',
      join2 tempPath ''*.log'',
      join2 tempPath ''*.bak'',
      join2 tempPath ''*.old'',
      join2 tempPath ''*.cache'',
      joinAll tempPath [''**'', ''*.tmp''],
      joinAll tempPath [''**'', ''*.temp''],
      joinAll tempPath [''**'', ''*.log''],
      joinAll tempPath [''**'', ''*.cache''],
      joinAll tempPath [''**'', ''*~''],
      joinAll tempPath [''Temporary Internet Files'', ''**'', ''*''],
      joinAll tempPath [''IETldCache'', ''**'', ''*''],
      joinAll tempPath [''chrome_*'', ''**'', ''*''],
      joinAll tempPath [''tmp*'', ''**'', ''*''],
      joinAll tempPath [''*_tmp'', ''**'', ''*''],
      join2 tempPath ''*tmp*'',
      join2 tempPath ''*temp*'',
      join2 tempPath ''*cache*'']"

definition cleanTempPath :: "ctx \<Rightarrow> state \<Rightarrow> path \<Rightarrow> counts \<times> state" where
  \<comment> \<open>nothing called in the \<open>try\<close> block throws, so its \<open>catch\<close> is never entered\<close>
  "cleanTempPath c st tempPath =
     (case findFiles c st (tempFilePatterns tempPath) [] of (files, st1) \<Rightarrow>
      case fold (delete_step c True) files (no_counts, st1) of (cnt, st2) \<Rightarrow>
      case findDirectories c st2 [join2 tempPath ''*/''] [] of (dirs, st3) \<Rightarrow>
        fold (rmdir_step c) dirs (cnt, st3))"

definition per_path :: "(state \<Rightarrow> path \<Rightarrow> counts \<times> state) \<Rightarrow> path \<Rightarrow> counts \<times> state \<Rightarrow> counts \<times> state" where
  \<comment> \<open>the body of the loop of \<open>clean()\<close>: a candidate path that exists is cleaned and its
      counts are added\<close>
  "per_path cleanPath p acc =
     (case acc of (cnt, st) \<Rightarrow>
        if pathExists (fs st) p then
          (case cleanPath st p of (result, st') \<Rightarrow> (add_counts cnt result, st'))
        else (cnt, st))"

definition TempCleaner_clean :: "ctx \<Rightarrow> filesystem \<Rightarrow> CleanupResult \<times> filesystem" where
  "TempCleaner_clean c fsys =
     (case fold (per_path (cleanTempPath c)) (getTempPaths c)
             (no_counts, \<lparr>fs = fsys, errors = []\<rparr>) of
        (cnt, st) \<Rightarrow>
          (\<lparr>filesDeleted = filesDeleted cnt, spaceSaved = spaceSaved cnt, task = ''temp'',
            filesOrganized = None, largeFiles = None, res_errors = errors st\<rparr>, fs st))"

section \<open>TrashCleaner\<close>

definition getTrashPaths :: "ctx \<Rightarrow> path list" where
  "getTrashPaths c =
     filter (\<lambda>p. p \<noteq> [])
       (case osType c of
          Windows \<Rightarrow>
            concat (map (\<lambda>drive. [join2 drive ''$Recycle.Bin'', join2 drive ''RECYCLER''])
                      [''C:'', ''D:'', ''E:'', ''F:''])
        | MacOS \<Rightarrow> [join2 (homeDir c) ''.Trash'', ''/Volumes/*/.Trashes'', ''/.Trashes'']
        | Linux \<Rightarrow> [joinAll (homeDir c) [''.local'', ''share'', ''Trash''], ''/tmp/.Trash-*''])"

definition empty_tree :: "ctx \<Rightarrow> path \<Rightarrow> counts \<times> state \<Rightarrow> counts \<times> state" where
  \<comment> \<open>delete every file below \<open>root\<close>, then the directories below it that are empty,
      the last found first: the block repeated for a Windows user folder, the macOS trash
      and the Linux \<open>files\<close> directory\<close>
  "empty_tree c root acc =
     (case acc of (cnt, st) \<Rightarrow>
      case findFiles c st [joinAll root [''**'', ''*'']] [] of (files, st1) \<Rightarrow>
      case fold (delete_step c False) files (cnt, st1) of (cnt2, st2) \<Rightarrow>
      case findDirectories c st2 [join2 root ''**''] [] of (dirs, st3) \<Rightarrow>
        fold (rmdir_step c) (rev dirs) (cnt2, st3))"

definition cleanWindowsRecycleBin :: "ctx \<Rightarrow> state \<Rightarrow> path \<Rightarrow> counts \<times> state" where
  "cleanWindowsRecycleBin c st recycleBinPath =
     (case findDirectories c st [join2 recycleBinPath ''S-*''] [] of (userFolders, st1) \<Rightarrow>
        fold (empty_tree c) userFolders (no_counts, st1))"

definition cleanLinuxTrash :: "ctx \<Rightarrow> state \<Rightarrow> path \<Rightarrow> counts \<times> state" where
  "cleanLinuxTrash c st trashPath =
     (let filesDir = join2 trashPath ''files'';
          infoDir = join2 trashPath ''info''
      in case (if pathExists (fs st) filesDir then empty_tree c filesDir (no_counts, st)
               else (no_counts, st)) of (cnt, st1) \<Rightarrow>
         if pathExists (fs st1) infoDir then
           (case findFiles c st1 [join2 infoDir ''*.trashinfo''] [] of (infoFiles, st2) \<Rightarrow>
              fold (delete_step c False) infoFiles (cnt, st2))
         else (cnt, st1))"

definition emptyTrashDirectory :: "ctx \<Rightarrow> state \<Rightarrow> path \<Rightarrow> counts \<times> state" where
  \<comment> \<open>on Windows and Linux the helper's result is awaited and dropped; the local counters
      \<open>filesDeleted\<close> and \<open>spaceSaved\<close> stay 0\<close>
  "emptyTrashDirectory c st trashPath =
     (case osType c of
        Windows \<Rightarrow>
          (case cleanWindowsRecycleBin c st trashPath of (dropped, st') \<Rightarrow> (no_counts, st'))
      | MacOS \<Rightarrow> empty_tree c trashPath (no_counts, st)
      | Linux \<Rightarrow>
          (case cleanLinuxTrash c st trashPath of (dropped, st') \<Rightarrow> (no_counts, st')))"

definition cleanTrashPath :: "ctx \<Rightarrow> state \<Rightarrow> path \<Rightarrow> counts \<times> state" where
  "cleanTrashPath c st trashPath =
     (if str_includes trashPath ''*'' then
        (case findDirectories c st [trashPath] [] of (matchingPaths, st1) \<Rightarrow>
           fold (\<lambda>matchedPath acc.
                   case acc of (cnt, st2) \<Rightarrow>
                   case emptyTrashDirectory c st2 matchedPath of (result, st3) \<Rightarrow>
                     (add_counts cnt result, st3))
                matchingPaths (no_counts, st1))
      else if pathExists (fs st) trashPath then
        (case emptyTrashDirectory c st trashPath of (result, st') \<Rightarrow>
           (add_counts no_counts result, st'))
      else (no_counts, st))"

definition TrashCleaner_clean :: "ctx \<Rightarrow> filesystem \<Rightarrow> CleanupResult \<times> filesystem" where
  "TrashCleaner_clean c fsys =
     (case fold (per_path (cleanTrashPath c)) (getTrashPaths c)
             (no_counts, \<lparr>fs = fsys, errors = []\<rparr>) of
        (cnt, st) \<Rightarrow>
          (\<lparr>filesDeleted = filesDeleted cnt, spaceSaved = spaceSaved cnt, task = ''trash'',
            filesOrganized = None, largeFiles = None, res_errors = errors st\<rparr>, fs st))"

section \<open>DownloadsOrganizer\<close>

definition getCategoryForExtension :: "ctx \<Rightarrow> string \<Rightarrow> string option" where
  "getCategoryForExtension c extension =
     map_option fst
       (find (\<lambda>(category, extensions). extension \<in> set extensions)
          (categories (organizeDownloads (config c))))"

definition digit_char :: "nat \<Rightarrow> char" where
  "digit_char d = char_of (48 + d)"

fun show_nat :: "nat \<Rightarrow> string" where
  \<comment> \<open>a number in a template string: its decimal digits\<close>
  "show_nat n = (if n < 10 then [digit_char n] else show_nat (n div 10) @ [digit_char (n mod 10)])"

declare show_nat.simps [simp del]

definition candidate :: "string \<Rightarrow> string \<Rightarrow> nat \<Rightarrow> string" where
  \<comment> \<open>the template \<open>${name} (${counter})${ext}\<close>\<close>
  "candidate nm ext counter = nm @ '' ('' @ show_nat counter @ '')'' @ ext"

function uniqueLoop :: "filesystem \<Rightarrow> path \<Rightarrow> string \<Rightarrow> string \<Rightarrow> nat \<Rightarrow> string \<Rightarrow> string" where
  \<comment> \<open>the \<open>while\<close> loop of \<open>generateUniqueFileName\<close> on \<open>counter\<close> and \<open>uniqueName\<close>\<close>
  "uniqueLoop fsys dirPath nm ext counter uniqueName =
     (if pathExists fsys (join2 dirPath uniqueName)
      then uniqueLoop fsys dirPath nm ext (counter + 1) (candidate nm ext counter)
      else uniqueName)"
  by pat_completeness auto

lemma of_char_digit: "d < 10 \<Longrightarrow> (of_char (digit_char d) :: nat) = 48 + d"
  by (simp add: digit_char_def)

lemma digit_char_inj: "a < 10 \<Longrightarrow> b < 10 \<Longrightarrow> digit_char a = digit_char b \<Longrightarrow> a = b"
proof -
  assume a: "a < 10" and b: "b < 10" and e: "digit_char a = digit_char b"
  from e have "(of_char (digit_char a) :: nat) = of_char (digit_char b)" by simp
  with a b show "a = b" by (simp add: of_char_digit)
qed

lemma show_nat_nonempty: "show_nat n \<noteq> []"
  by (subst show_nat.simps) simp

lemma show_nat_inj: "show_nat n = show_nat m \<Longrightarrow> n = m"
proof (induction n arbitrary: m rule: show_nat.induct)
  case (1 n)
  show ?case
  proof (cases "n < 10")
    case small: True
    show ?thesis
    proof (cases "m < 10")
      case True
      with small "1.prems" show ?thesis
        by (simp add: show_nat.simps [of n] show_nat.simps [of m] digit_char_inj)
    next
      case False
      with small "1.prems" show_nat_nonempty [of "m div 10"] show ?thesis
        by (simp add: show_nat.simps [of n] show_nat.simps [of m])
    qed
  next
    case big: False
    show ?thesis
    proof (cases "m < 10")
      case True
      with big "1.prems" show_nat_nonempty [of "n div 10"] show ?thesis
        by (simp add: show_nat.simps [of n] show_nat.simps [of m])
    next
      case False
      with big "1.prems"
      have eq: "show_nat (n div 10) = show_nat (m div 10)"
        and dg: "digit_char (n mod 10) = digit_char (m mod 10)"
        by (simp_all add: show_nat.simps [of n] show_nat.simps [of m])
      from "1.IH" [OF big eq] have "n div 10 = m div 10" .
      moreover from dg have "n mod 10 = m mod 10" by (simp add: digit_char_inj)
      ultimately show ?thesis by (metis div_mult_mod_eq)
    qed
  qed
qed

lemma candidate_inj: "candidate nm ext i = candidate nm ext j \<Longrightarrow> i = j"
  by (simp add: candidate_def show_nat_inj)

lemma join2_inj: "join2 d a = join2 d b \<Longrightarrow> a = b"
  by (simp add: join2_def)

text \<open>The counters from \<open>counter\<close> on whose candidate name is taken: a finite set, since
  distinct counters give distinct names.\<close>

definition taken :: "filesystem \<Rightarrow> path \<Rightarrow> string \<Rightarrow> string \<Rightarrow> nat \<Rightarrow> nat set" where
  "taken fsys dirPath nm ext counter =
     {k. counter \<le> k \<and> pathExists fsys (join2 dirPath (candidate nm ext k))}"

lemma pathExists_iff: "pathExists fsys p \<longleftrightarrow> p \<in> fst ` set fsys"
proof -
  have "pathExists fsys p \<longleftrightarrow> map_of fsys p \<noteq> None"
    by (simp add: pathExists_def access_F_def lookup_def split: option.splits)
  then show ?thesis by (simp add: map_of_eq_None_iff)
qed

lemma finite_taken: "finite (taken fsys dirPath nm ext counter)"
proof -
  let ?f = "\<lambda>k. join2 dirPath (candidate nm ext k)"
  have inj: "inj_on ?f (taken fsys dirPath nm ext counter)"
    by (rule inj_onI) (auto dest: join2_inj candidate_inj)
  have "?f ` taken fsys dirPath nm ext counter \<subseteq> fst ` set fsys"
    by (auto simp: taken_def pathExists_iff)
  then have "finite (?f ` taken fsys dirPath nm ext counter)"
    by (rule finite_subset) simp
  with inj show ?thesis by (rule finite_imageD [rotated])
qed

lemma taken_Suc:
  "taken fsys dirPath nm ext (Suc counter) =
     taken fsys dirPath nm ext counter - {counter}"
  by (auto simp: taken_def)

termination uniqueLoop
proof (relation "measure (\<lambda>(fsys, dirPath, nm, ext, counter, uniqueName).
          2 * card (taken fsys dirPath nm ext counter) +
          (if pathExists fsys (join2 dirPath uniqueName) then 1 else 0))", goal_cases)
  case 1
  show ?case by simp
next
  case (2 fsys dirPath nm ext counter uniqueName)
  show ?case
  proof (cases "pathExists fsys (join2 dirPath (candidate nm ext counter))")
    case True
    then have "counter \<in> taken fsys dirPath nm ext counter"
      by (simp add: taken_def)
    then have "card (taken fsys dirPath nm ext (Suc counter)) <
               card (taken fsys dirPath nm ext counter)"
      unfolding taken_Suc by (rule card_Diff1_less [OF finite_taken])
    with 2 show ?thesis by simp
  next
    case False
    then have "counter \<notin> taken fsys dirPath nm ext counter"
      by (simp add: taken_def)
    then have "taken fsys dirPath nm ext (Suc counter) = taken fsys dirPath nm ext counter"
      by (simp add: taken_Suc)
    with 2 False show ?thesis by simp
  qed
qed

declare uniqueLoop.simps [simp del]

definition generateUniqueFileName :: "filesystem \<Rightarrow> path \<Rightarrow> string \<Rightarrow> string" where
  "generateUniqueFileName fsys dirPath fileName =
     uniqueLoop fsys dirPath (parse_name fileName) (extname fileName) 1 fileName"

definition target_path :: "filesystem \<Rightarrow> path \<Rightarrow> string \<Rightarrow> path" where
  \<comment> \<open>where \<open>organizeFile\<close> moves the file: \<open>newFilePath\<close>, or \<open>uniqueFilePath\<close> when
      \<open>newFilePath\<close> exists\<close>
  "target_path fsys categoryPath fileName =
     (let newFilePath = join2 categoryPath fileName in
      if pathExists fsys newFilePath
      then join2 categoryPath (generateUniqueFileName fsys categoryPath fileName)
      else newFilePath)"

definition organizeFile_try :: "ctx \<Rightarrow> filesystem \<Rightarrow> path \<Rightarrow> path \<Rightarrow> (thrown + bool) \<times> filesystem" where
  \<comment> \<open>the \<open>try\<close> block of \<open>organizeFile\<close>: what it returns or throws, and the file system it
      leaves behind\<close>
  "organizeFile_try c fsys filePath downloads =
     (let fileName = basename filePath;
          fileExt = toLowerCase (extname fileName)
      in if fileExt = [] \<or> startsWith fileName ''.'' then (Inr False, fsys)
         else
           (case getCategoryForExtension c fileExt of
              None \<Rightarrow> (Inr False, fsys)
            | Some category \<Rightarrow>
                (let categoryPath = join2 downloads category in
                 case (if \<not> dryRun c then ensureDir (now c) fsys categoryPath else Inr fsys) of
                   Inl e \<Rightarrow> (Inl e, fsys)
                 | Inr fsys1 \<Rightarrow>
                     if \<not> dryRun c then
                       (case move (now c) fsys1 filePath
                               (target_path fsys1 categoryPath fileName) of
                          Inl e \<Rightarrow> (Inl e, fsys1)
                        | Inr fsys2 \<Rightarrow> (Inr True, fsys2))
                     else (Inr True, fsys1))))"

definition organizeFile :: "ctx \<Rightarrow> state \<Rightarrow> path \<Rightarrow> path \<Rightarrow> bool \<times> state" where
  "organizeFile c st filePath downloads =
     (case organizeFile_try c (fs st) filePath downloads of
        (Inr organized, fsys') \<Rightarrow> (organized, st\<lparr>fs := fsys'\<rparr>)
      | (Inl e, fsys') \<Rightarrow>
          (False,
           \<lparr>fs = fsys',
            errors = errors st @
              [''Failed to organize file '' @ filePath @ '': '' @ message e]\<rparr>))"

definition downloads_result :: "nat \<Rightarrow> string list \<Rightarrow> CleanupResult" where
  "downloads_result n errs =
     \<lparr>filesDeleted = 0, spaceSaved = 0, task = ''downloads'',
      filesOrganized = Some n, largeFiles = None, res_errors = errs\<rparr>"

definition organize_step :: "ctx \<Rightarrow> path \<Rightarrow> path \<Rightarrow> nat \<times> state \<Rightarrow> nat \<times> state" where
  \<comment> \<open>the body of the loop of \<open>organize\<close>\<close>
  "organize_step c downloads file acc =
     (case acc of (n, st1) \<Rightarrow>
      case organizeFile c st1 file downloads of
        (organized, st2) \<Rightarrow> (if organized then n + 1 else n, st2))"

definition organize :: "ctx \<Rightarrow> filesystem \<Rightarrow> CleanupResult \<times> filesystem" where
  \<comment> \<open>\<open>findFiles\<close> and \<open>organizeFile\<close> catch what they call, so the \<open>catch\<close> around the
      loop is never entered\<close>
  "organize c fsys =
     (if \<not> enabled (organizeDownloads (config c)) then
        (downloads_result 0 [''Downloads organization is disabled in config''], fsys)
      else if \<not> pathExists fsys (downloadsPath (config c)) then
        (downloads_result 0 [''Downloads folder not found: '' @ downloadsPath (config c)], fsys)
      else
        (case findFiles c \<lparr>fs = fsys, errors = []\<rparr> [join2 (downloadsPath (config c)) ''*''] [] of
           (files, st) \<Rightarrow>
             (case fold (organize_step c (downloadsPath (config c))) files (0, st) of
                (n, st') \<Rightarrow> (downloads_result n (errors st'), fs st'))))"

section \<open>LargeFileFinder\<close>

definition systemDirs :: "string list" where
  "systemDirs =
     [''System Volume Information'', ''$RECYCLE.BIN'', ''Windows'', ''Program Files'',
      ''Program Files (x86)'', ''ProgramData'', ''AppData'', ''node_modules'',
      ''.git'', ''.svn'', ''.hg'']"

definition windowsSkipPaths :: "string list" where
  "windowsSkipPaths =
     [win_lit [''C:'', ''Windows''], win_lit [''C:'', ''Program Files''],
      win_lit [''C:'', ''Program Files (x86)''], win_lit [''C:'', ''ProgramData'']]"

definition macosSkipPaths :: "string list" where
  "macosSkipPaths = [''/System'', ''/Library/System'', ''/usr/bin'', ''/usr/sbin'', ''/bin'', ''/sbin'']"

definition linuxSkipPaths :: "string list" where
  "linuxSkipPaths =
     [''/bin'', ''/sbin'', ''/usr/bin'', ''/usr/sbin'', ''/lib'', ''/lib64'', ''/usr/lib'',
      ''/usr/lib64'', ''/sys'', ''/proc'', ''/dev'']"

definition shouldSkipPath :: "ctx \<Rightarrow> path \<Rightarrow> string \<Rightarrow> bool" where
  "shouldSkipPath c fullPath itemName =
     (if startsWith itemName ''.'' then True
      else if itemName \<in> set systemDirs then True
      else if (case osType c of
                 Windows \<Rightarrow>
                   list_ex (\<lambda>skipPath. startsWith (toLowerCase fullPath) (toLowerCase skipPath))
                     windowsSkipPaths
               | MacOS \<Rightarrow> list_ex (\<lambda>skipPath. startsWith fullPath skipPath) macosSkipPaths
               | Linux \<Rightarrow> list_ex (\<lambda>skipPath. startsWith fullPath skipPath) linuxSkipPaths)
      then True
      else list_ex (\<lambda>exclusion. str_includes fullPath exclusion) (exclusions (config c)))"

function traverseDirectory ::
  "ctx \<Rightarrow> filesystem \<Rightarrow> path \<Rightarrow> (path \<times> nat) list \<Rightarrow> nat \<Rightarrow> (path \<times> nat) list" where
  \<comment> \<open>\<open>found\<close> is the array \<open>largeFiles\<close>; the result is the array as the call leaves it\<close>
  "traverseDirectory c fsys dirPath found depth =
     (if depth > 10 then found
      else
        (case readdir_withFileTypes fsys dirPath of
           Inl e \<Rightarrow> found
         | Inr items \<Rightarrow>
             fold (\<lambda>item acc.
                     if shouldSkipPath c (join2 dirPath (d_name item)) (d_name item) then acc
                     else if d_kind item = RegularFile then
                       (case stat fsys (join2 dirPath (d_name item)) of
                          Inl e \<Rightarrow> acc
                        | Inr stats \<Rightarrow>
                            if int (n_size stats) \<ge> largeFileThreshold (config c)
                            then acc @ [(join2 dirPath (d_name item), n_size stats)]
                            else acc)
                     else if d_kind item = Directory then
                       traverseDirectory c fsys (join2 dirPath (d_name item)) acc (depth + 1)
                     else acc)
                  items found))"
  by pat_completeness auto
termination
  by (relation "measure (\<lambda>(c, fsys, dirPath, found, depth). 11 - depth)") auto

declare traverseDirectory.simps [simp del]

definition findLargeFilesInPath :: "ctx \<Rightarrow> filesystem \<Rightarrow> path \<Rightarrow> (path \<times> nat) list" where
  \<comment> \<open>\<open>traverseDirectory\<close> catches what it calls, so the \<open>catch\<close> here is never entered\<close>
  "findLargeFilesInPath c fsys searchPath = traverseDirectory c fsys searchPath [] 0"

definition getSearchPaths :: "ctx \<Rightarrow> path list" where
  "getSearchPaths c =
     filter (\<lambda>p. p \<noteq> [])
       ([homeDir c] @
        (case osType c of
           Windows \<Rightarrow>
             [win_lit [''C:'', ''Users''], win_lit [''C:'', ''Downloads''],
              join2 (homeDir c) ''Documents'', join2 (homeDir c) ''Videos'',
              join2 (homeDir c) ''Pictures'', join2 (homeDir c) ''Desktop'']
         | MacOS \<Rightarrow>
             [join2 (homeDir c) ''Documents'', join2 (homeDir c) ''Movies'',
              join2 (homeDir c) ''Pictures'', join2 (homeDir c) ''Desktop'',
              join2 (homeDir c) ''Library'', ''/Applications'']
         | Linux \<Rightarrow>
             [join2 (homeDir c) ''Documents'', join2 (homeDir c) ''Videos'',
              join2 (homeDir c) ''Pictures'', join2 (homeDir c) ''Desktop'',
              ''/opt'', ''/usr/share'']))"

definition find_large :: "ctx \<Rightarrow> filesystem \<Rightarrow> CleanupResult" where
  \<comment> \<open>\<open>LargeFileFinder.find\<close>; the stable sort puts the largest first\<close>
  "find_large c fsys =
     (let found = concat (map (\<lambda>searchPath.
                     if pathExists fsys searchPath then findLargeFilesInPath c fsys searchPath
                     else []) (getSearchPaths c))
      in \<lparr>filesDeleted = 0, spaceSaved = 0, task = ''largeFiles'', filesOrganized = None,
          largeFiles = Some (sort_key (\<lambda>(p, sz). - int sz) found), res_errors = []\<rparr>)"

section \<open>ConfigManager: the built-in defaults\<close>

definition createDefaultConfig :: "os_type \<Rightarrow> path \<Rightarrow> CleanupConfig" where
  "createDefaultConfig os home =
     \<lparr>largeFileThreshold = 1024 * 1024 * 1024,
      customTempPaths = [],
      customCachePaths = [],
      downloadsPath = join2 home ''Downloads'',
      exclusions = [],
      browsers = \<lparr>chrome = True, firefox = True, edge = True, safari = (os = MacOS)\<rparr>,
      organizeDownloads =
        \<lparr>enabled = True,
         categories =
           [(''Images'', [''.jpg'', ''.jpeg'', ''.png'', ''.gif'', ''.bmp'', ''.svg'', ''.webp'', ''.ico'']),
            (''Videos'', [''.mp4'', ''.avi'', ''.mkv'', ''.mov'', ''.wmv'', ''.flv'', ''.webm'', ''.m4v'']),
            (''Audio'', [''.mp3'', ''.wav'', ''.flac'', ''.aac'', ''.ogg'', ''.wma'', ''.m4a'']),
            (''Documents'', [''.pdf'', ''.doc'', ''.docx'', ''.txt'', ''.rtf'', ''.odt'', ''.pages'']),
            (''Spreadsheets'', [''.xls'', ''.xlsx'', ''.csv'', ''.ods'', ''.numbers'']),
            (''Presentations'', [''.ppt'', ''.pptx'', ''.odp'', ''.key'']),
            (''Archives'', [''.zip'', ''.rar'', ''.7z'', ''.tar'', ''.gz'', ''.bz2'', ''.xz'']),
            (''Installers'', [''.exe'', ''.msi'', ''.dmg'', ''.pkg'', ''.deb'', ''.rpm'', ''.appimage'']),
            (''Code'', [''.js'', ''.ts'', ''.html'', ''.css'', ''.py'', ''.java'', ''.cpp'', ''.c'', ''.php'', ''.rb''])]\<rparr>,
      confirmDeletions = True,
      backupBeforeDelete = False,
      maxFileAge = 0\<rparr>"

section \<open>ConfigManager: loading\<close>

text \<open>
  At run time a configuration is a plain object, and \<open>loadConfig\<close> builds its result by
  object spread; nothing checks it against the interface \<open>CleanupConfig\<close>. So the loaded
  configuration is modelled as a JSON value, an object being the list of its properties.
\<close>

datatype json =
    JNull
  | JBool bool
  | JNum int
  | JStr string
  | JArr "json list"
  | JObj "(string \<times> json) list"

definition strings_json :: "string list \<Rightarrow> json" where
  "strings_json xs = JArr (map JStr xs)"

definition config_json :: "CleanupConfig \<Rightarrow> json" where
  \<comment> \<open>a configuration as the object it is at run time\<close>
  "config_json cfg =
     JObj
       [(''largeFileThreshold'', JNum (largeFileThreshold cfg)),
        (''customTempPaths'', strings_json (customTempPaths cfg)),
        (''customCachePaths'', strings_json (customCachePaths cfg)),
        (''downloadsPath'', JStr (downloadsPath cfg)),
        (''exclusions'', strings_json (exclusions cfg)),
        (''browsers'',
           JObj [(''chrome'', JBool (chrome (browsers cfg))),
                 (''firefox'', JBool (firefox (browsers cfg))),
                 (''edge'', JBool (edge (browsers cfg))),
                 (''safari'', JBool (safari (browsers cfg)))]),
        (''organizeDownloads'',
           JObj [(''enabled'', JBool (enabled (organizeDownloads cfg))),
                 (''categories'',
                    JObj (map (\<lambda>(category, extensions). (category, strings_json extensions))
                            (categories (organizeDownloads cfg))))]),
        (''confirmDeletions'', JBool (confirmDeletions cfg)),
        (''backupBeforeDelete'', JBool (backupBeforeDelete cfg)),
        (''maxFileAge'', JNum (maxFileAge cfg))]"

fun get_prop :: "json \<Rightarrow> string \<Rightarrow> json option" where
  \<comment> \<open>property access \<open>o.k\<close>; \<open>None\<close> is \<open>undefined\<close>\<close>
  "get_prop (JObj kvs) k = map_of kvs k"
| "get_prop j k = None"

fun set_prop :: "string \<Rightarrow> json \<Rightarrow> (string \<times> json) list \<Rightarrow> (string \<times> json) list" where
  \<comment> \<open>assignment to a property: an existing key keeps its place, a new one goes last\<close>
  "set_prop k v [] = [(k, v)]"
| "set_prop k v ((k', v') # kvs) =
     (if k' = k then (k, v) # kvs else (k', v') # set_prop k v kvs)"

fun own_props :: "json \<Rightarrow> (string \<times> json) list" where
  \<comment> \<open>what a spread \<open>...j\<close> copies: the properties of an object, the indexed elements of an
      array, the indexed characters of a string, nothing otherwise\<close>
  "own_props (JObj kvs) = kvs"
| "own_props (JArr xs) = zip (map show_nat [0 ..< length xs]) xs"
| "own_props (JStr s) = zip (map show_nat [0 ..< length s]) (map (\<lambda>ch. JStr [ch]) s)"
| "own_props j = []"

definition spread2 :: "json \<Rightarrow> json \<Rightarrow> json" where
  \<comment> \<open>the object literal with two spreads, first \<open>a\<close> then \<open>b\<close>\<close>
  "spread2 a b =
     JObj (fold (\<lambda>(k, v). set_prop k v) (own_props b)
             (fold (\<lambda>(k, v). set_prop k v) (own_props a) []))"

definition loadConfig :: "os_type \<Rightarrow> path \<Rightarrow> (thrown + json) option \<Rightarrow> json" where
  \<comment> \<open>\<open>file\<close> is what the configuration path holds: \<open>None\<close> when it does not exist, else
      what \<open>fs.readJson\<close> returns or throws\<close>
  "loadConfig os home file =
     (let defaultConfig = config_json (createDefaultConfig os home) in
      case file of
        None \<Rightarrow> defaultConfig
      | Some (Inl e) \<Rightarrow> defaultConfig
      | Some (Inr configData) \<Rightarrow> spread2 defaultConfig configData)"

section \<open>CleanupManager\<close>

text \<open>
  Each method of the manager constructs a cleaner and awaits its \<open>clean()\<close> (or
  \<open>organize()\<close>, \<open>find()\<close>) inside a \<open>try\<close>. A task is what that call does: it returns a
  result or throws, and leaves a file system behind. The manager's own logging and
  spinner calls do not throw and are left out.
\<close>

type_synonym cleanup_task = "filesystem \<Rightarrow> (thrown + CleanupResult) \<times> filesystem"

record task_set =
  temp_task :: cleanup_task
  cache_task :: cleanup_task
  browser_task :: cleanup_task
  trash_task :: cleanup_task
  downloads_task :: cleanup_task
  large_task :: cleanup_task

record manager =
  results :: "CleanupResult list"
  world :: filesystem

definition failed_result :: "string \<Rightarrow> nat option \<Rightarrow> (path \<times> nat) list option \<Rightarrow> thrown \<Rightarrow> CleanupResult" where
  \<comment> \<open>the result built in a \<open>catch\<close> block\<close>
  "failed_result name organized large e =
     \<lparr>filesDeleted = 0, spaceSaved = 0, task = name, filesOrganized = organized,
      largeFiles = large, res_errors = [message e]\<rparr>"

definition run_task ::
  "string \<Rightarrow> nat option \<Rightarrow> (path \<times> nat) list option \<Rightarrow> cleanup_task \<Rightarrow> manager \<Rightarrow>
     CleanupResult \<times> manager" where
  \<comment> \<open>the common shape of the six methods: \<open>try { result = await ...; this.results.push(result);
      return result } catch (error) { result = {...}; this.results.push(result); return result }\<close>\<close>
  "run_task name organized large t m =
     (case t (world m) of
        (Inr result, w) \<Rightarrow> (result, \<lparr>results = results m @ [result], world = w\<rparr>)
      | (Inl e, w) \<Rightarrow>
          (failed_result name organized large e,
           \<lparr>results = results m @ [failed_result name organized large e], world = w\<rparr>))"

definition cleanTempFiles :: "task_set \<Rightarrow> manager \<Rightarrow> CleanupResult \<times> manager" where
  "cleanTempFiles ts m = run_task ''temp'' None None (temp_task ts) m"

definition cleanCacheFiles :: "task_set \<Rightarrow> manager \<Rightarrow> CleanupResult \<times> manager" where
  "cleanCacheFiles ts m = run_task ''cache'' None None (cache_task ts) m"

definition cleanBrowserCaches :: "task_set \<Rightarrow> manager \<Rightarrow> CleanupResult \<times> manager" where
  "cleanBrowserCaches ts m = run_task ''browsers'' None None (browser_task ts) m"

definition emptyTrash :: "task_set \<Rightarrow> manager \<Rightarrow> CleanupResult \<times> manager" where
  "emptyTrash ts m = run_task ''trash'' None None (trash_task ts) m"

definition organizeDownloads_task :: "task_set \<Rightarrow> manager \<Rightarrow> CleanupResult \<times> manager" where
  \<comment> \<open>\<open>CleanupManager.organizeDownloads\<close>\<close>
  "organizeDownloads_task ts m = run_task ''downloads'' (Some 0) None (downloads_task ts) m"

definition findLargeFiles :: "task_set \<Rightarrow> manager \<Rightarrow> CleanupResult \<times> manager" where
  "findLargeFiles ts m = run_task ''largeFiles'' None (Some []) (large_task ts) m"

definition runAllTasks :: "task_set \<Rightarrow> manager \<Rightarrow> manager" where
  "runAllTasks ts m =
     snd (findLargeFiles ts
       (snd (organizeDownloads_task ts
         (snd (emptyTrash ts
           (snd (cleanBrowserCaches ts
             (snd (cleanCacheFiles ts
               (snd (cleanTempFiles ts m)))))))))))"

section \<open>Notions used in the statements\<close>

definition listed_in :: "string \<Rightarrow> string \<times> string list \<Rightarrow> bool" where
  \<comment> \<open>the extension list of the category contains the extension\<close>
  "listed_in extension entry = (extension \<in> set (snd entry))"

definition categorised :: "ctx \<Rightarrow> path \<Rightarrow> bool" where
  \<comment> \<open>the entry has an extension, is not hidden, and its lowercase extension is listed in
      some category of the configuration\<close>
  "categorised c filePath =
     (toLowerCase (extname (basename filePath)) \<noteq> []
      \<and> \<not> startsWith (basename filePath) ''.''
      \<and> list_ex (listed_in (toLowerCase (extname (basename filePath))))
            (categories (organizeDownloads (config c))))"

definition seg :: "string \<Rightarrow> bool" where
  \<comment> \<open>a name of a directory entry: not empty, no separator in it\<close>
  "seg n = (n \<noteq> [] \<and> sep \<notin> set n)"

definition listable :: "filesystem \<Rightarrow> path \<Rightarrow> bool" where
  \<comment> \<open>\<open>readdir\<close> succeeds on \<open>d\<close>\<close>
  "listable fsys d =
     (case lookup fsys d of None \<Rightarrow> False | Some nd \<Rightarrow> n_kind nd = Directory \<and> n_readable nd)"

fun chain_ok :: "ctx \<Rightarrow> filesystem \<Rightarrow> path \<Rightarrow> string list \<Rightarrow> bool" where
  \<comment> \<open>below \<open>d\<close> the directories \<open>d/n1\<close>, \<open>d/n1/n2\<close>, ... exist, are directories themselves
      (not symbolic links), can be listed and are not skipped by the scanner\<close>
  "chain_ok c fsys d [] = listable fsys d"
| "chain_ok c fsys d (n # ns) =
     (listable fsys d \<and> seg n \<and> \<not> shouldSkipPath c (join2 d n) n \<and>
      (case lookup fsys (join2 d n) of
         None \<Rightarrow> False | Some nd \<Rightarrow> n_kind nd = Directory \<and> \<not> n_link nd) \<and>
      chain_ok c fsys (join2 d n) ns)"

definition slash_count :: "path \<Rightarrow> nat" where
  "slash_count p = length (filter (\<lambda>ch. ch = sep) p)"

definition level :: "path \<Rightarrow> nat" where
  \<comment> \<open>the number of separators in front of an entry of directory \<open>d\<close>\<close>
  "level d = slash_count (dir_prefix d)"


section \<open>Notions used in the proofs\<close>

definition reported :: "ctx \<Rightarrow> filesystem \<Rightarrow> path \<Rightarrow> nat \<Rightarrow> (path \<times> nat) set" where
  \<comment> \<open>the entries a scan of \<open>d\<close> that starts at \<open>depth\<close> may report: regular files of the
      table, no symbolic links, with their sizes, of a size that reaches the threshold,
      named by at most \<open>11 - depth\<close> names below \<open>d\<close>\<close>
  "reported c fsys d depth =
     {(p, s). \<exists>ns nd. p = joinAll d ns \<and> ns \<noteq> [] \<and> list_all seg ns \<and> length ns + depth \<le> 11
        \<and> lookup fsys p = Some nd \<and> n_kind nd = RegularFile \<and> \<not> n_link nd \<and> n_size nd = s
        \<and> largeFileThreshold (config c) \<le> int s}"




section \<open>Fixtures\<close>

definition file_node :: "nat \<Rightarrow> int \<Rightarrow> node" where
  "file_node sz mt =
     \<lparr>n_kind = RegularFile, n_size = sz, n_mtime = mt, n_writable = True, n_readable = True,
      n_link = False\<rparr>"

definition dir_node :: node where
  "dir_node =
     \<lparr>n_kind = Directory, n_size = 4096, n_mtime = 0, n_writable = True, n_readable = True,
      n_link = False\<rparr>"

definition linux_ctx :: "bool \<Rightarrow> ctx" where
  \<comment> \<open>a Linux user \<open>u\<close> with the default configuration; the clock stands at day 100\<close>
  "linux_ctx dry =
     \<lparr>config = createDefaultConfig Linux ''/home/u'', dryRun = dry, osType = Linux,
      homeDir = ''/home/u'', tempDir = ''/tmp'', localAppData = [], appData = [],
      now = 100 * 86400000\<rparr>"

definition scenario_ctx :: "bool \<Rightarrow> ctx" where
  \<comment> \<open>\<open>linux_ctx\<close> with the category map \<open>{Images: [.jpg], Documents: [.pdf]}\<close>\<close>
  "scenario_ctx dry =
     (linux_ctx dry)
       \<lparr>config := (createDefaultConfig Linux ''/home/u'')
          \<lparr>organizeDownloads :=
             \<lparr>enabled = True,
              categories = [(''Images'', [''.jpg'']), (''Documents'', [''.pdf''])]\<rparr>\<rparr>\<rparr>"

definition excl_ctx :: ctx where
  \<comment> \<open>\<open>linux_ctx\<close>, live, with the exclusion list \<open>["important-folder"]\<close>\<close>
  "excl_ctx =
     (linux_ctx False)
       \<lparr>config := (createDefaultConfig Linux ''/home/u'')\<lparr>exclusions := [''important-folder'']\<rparr>\<rparr>"

definition age_ctx :: ctx where
  \<comment> \<open>\<open>linux_ctx\<close>, live, with \<open>maxFileAge = 5\<close>\<close>
  "age_ctx =
     (linux_ctx False)\<lparr>config := (createDefaultConfig Linux ''/home/u'')\<lparr>maxFileAge := 5\<rparr>\<rparr>"

definition age_fs :: filesystem where
  \<comment> \<open>two temporary files, last modified 5 and 6 days before the clock of \<open>linux_ctx\<close>\<close>
  "age_fs = [(''/tmp'', dir_node),
             (''/tmp/five.tmp'', file_node 10 (95 * 86400000)),
             (''/tmp/six.tmp'', file_node 20 (94 * 86400000))]"

definition ro_fs :: filesystem where
  \<comment> \<open>a temporary directory with one ordinary and one read-only file\<close>
  "ro_fs = [(''/tmp'', dir_node),
            (''/tmp/old.tmp'', file_node 10 0),
            (''/tmp/locked.tmp'', (file_node 20 0)\<lparr>n_writable := False\<rparr>)]"

definition trash_fs :: filesystem where
  \<comment> \<open>an XDG trash with two discarded files and their two sidecar files\<close>
  "trash_fs =
     [(''/home/u/.local/share/Trash'', dir_node),
      (''/home/u/.local/share/Trash/files'', dir_node),
      (''/home/u/.local/share/Trash/files/a.txt'', file_node 100 0),
      (''/home/u/.local/share/Trash/files/b.txt'', file_node 250 0),
      (''/home/u/.local/share/Trash/info'', dir_node),
      (''/home/u/.local/share/Trash/info/a.txt.trashinfo'', file_node 60 0),
      (''/home/u/.local/share/Trash/info/b.txt.trashinfo'', file_node 61 0)]"

definition downloads_fs :: filesystem where
  \<comment> \<open>a downloads directory with a picture, a document and a file without extension\<close>
  "downloads_fs =
     [(''/home/u/Downloads'', dir_node),
      (''/home/u/Downloads/photo.jpg'', file_node 300 0),
      (''/home/u/Downloads/report.pdf'', file_node 200 0),
      (''/home/u/Downloads/note'', file_node 5 0)]"


definition deep_fs :: filesystem where
  \<comment> \<open>below the home directory, one large file inside ten nested directories and one
      inside eleven\<close>
  "deep_fs =
     [(''/home/u'', dir_node),
      (''/home/u/a'', dir_node),
      (''/home/u/a/b'', dir_node),
      (''/home/u/a/b/c'', dir_node),
      (''/home/u/a/b/c/d'', dir_node),
      (''/home/u/a/b/c/d/e'', dir_node),
      (''/home/u/a/b/c/d/e/f'', dir_node),
      (''/home/u/a/b/c/d/e/f/g'', dir_node),
      (''/home/u/a/b/c/d/e/f/g/h'', dir_node),
      (''/home/u/a/b/c/d/e/f/g/h/i'', dir_node),
      (''/home/u/a/b/c/d/e/f/g/h/i/j'', dir_node),
      (''/home/u/a/b/c/d/e/f/g/h/i/j/big.iso'', file_node 2000000000 0),
      (''/home/u/a/b/c/d/e/f/g/h/i/j/k'', dir_node),
      (''/home/u/a/b/c/d/e/f/g/h/i/j/k/deep.iso'', file_node 3000000000 0)]"

definition nested_fs :: filesystem where
  \<comment> \<open>one large file inside eleven nested directories below the home directory, the
      first of which is the seed \<open>Documents\<close>\<close>
  "nested_fs =
     [(''/home/u'', dir_node),
      (''/home/u/Documents'', dir_node),
      (''/home/u/Documents/a'', dir_node),
      (''/home/u/Documents/a/b'', dir_node),
      (''/home/u/Documents/a/b/c'', dir_node),
      (''/home/u/Documents/a/b/c/d'', dir_node),
      (''/home/u/Documents/a/b/c/d/e'', dir_node),
      (''/home/u/Documents/a/b/c/d/e/f'', dir_node),
      (''/home/u/Documents/a/b/c/d/e/f/g'', dir_node),
      (''/home/u/Documents/a/b/c/d/e/f/g/h'', dir_node),
      (''/home/u/Documents/a/b/c/d/e/f/g/h/i'', dir_node),
      (''/home/u/Documents/a/b/c/d/e/f/g/h/i/j'', dir_node),
      (''/home/u/Documents/a/b/c/d/e/f/g/h/i/j/deep.iso'', file_node 3000000000 0)]"

definition excl_fs :: filesystem where
  \<comment> \<open>a temporary directory with a folder the user wants kept\<close>
  "excl_fs =
     [(''/tmp'', dir_node),
      (''/tmp/important-folder'', dir_node),
      (''/tmp/important-folder/session.tmp'', file_node 7 0)]"

section \<open>Verified properties\<close>

subsection \<open>Deleting one file\<close>

lemma lookup_purge_self: "lookup (purge fsys p) p = None"
  by (auto simp: lookup_def purge_def map_of_eq_None_iff)

lemma remove_gone: "remove fsys p = Inr fsys' \<Longrightarrow> lookup fsys' p = None"
  by (auto simp: remove_def lookup_purge_self split: option.splits if_splits)

text \<open>
  C5. \<open>deleteFile\<close> reads the size first. On a dry run it returns \<open>deleted = true\<close> with
  that size and changes nothing. On a live run it either passes the write-access check and
  the removal, returning \<open>deleted = true\<close> with the size read before the removal (the path
  is gone afterwards, no error is recorded), or one of the two fails and it returns
  \<open>deleted = false\<close>, \<open>size = 0\<close> with exactly one error appended that names the path.
  It is a total function: nothing is raised to the caller.
\<close>

theorem deleteFile_contract:
  "(dryRun c \<longrightarrow>
      deleteFile c st p = (\<lparr>deleted = True, size_bytes = getFileSize (fs st) p\<rparr>, st))
   \<and> (\<not> dryRun c \<longrightarrow>
        (case deleteFile c st p of (r, st') \<Rightarrow>
           (deleted r \<and> size_bytes r = getFileSize (fs st) p
            \<and> access_W (fs st) p = Inr () \<and> remove (fs st) p = Inr (fs st')
            \<and> lookup (fs st') p = None \<and> errors st' = errors st)
         \<or> (\<not> deleted r \<and> size_bytes r = 0 \<and> fs st' = fs st
            \<and> (\<exists>e. (access_W (fs st) p = Inl e
                      \<or> access_W (fs st) p = Inr () \<and> remove (fs st) p = Inl e)
                   \<and> errors st' = errors st @ [''Failed to delete '' @ p @ '': '' @ message e]))))"
proof (intro conjI impI)
  assume "dryRun c"
  then show "deleteFile c st p = (\<lparr>deleted = True, size_bytes = getFileSize (fs st) p\<rparr>, st)"
    by (simp add: deleteFile_def deleteFile_try_def)
next
  assume live: "\<not> dryRun c"
  show "case deleteFile c st p of (r, st') \<Rightarrow>
           (deleted r \<and> size_bytes r = getFileSize (fs st) p
            \<and> access_W (fs st) p = Inr () \<and> remove (fs st) p = Inr (fs st')
            \<and> lookup (fs st') p = None \<and> errors st' = errors st)
         \<or> (\<not> deleted r \<and> size_bytes r = 0 \<and> fs st' = fs st
            \<and> (\<exists>e. (access_W (fs st) p = Inl e
                      \<or> access_W (fs st) p = Inr () \<and> remove (fs st) p = Inl e)
                   \<and> errors st' = errors st @ [''Failed to delete '' @ p @ '': '' @ message e]))"
  proof (cases "access_W (fs st) p")
    case (Inl e)
    with live show ?thesis
      by (simp add: deleteFile_def deleteFile_try_def)
  next
    case acc: (Inr u)
    show ?thesis
    proof (cases "remove (fs st) p")
      case (Inl e)
      with live acc show ?thesis
        by (simp add: deleteFile_def deleteFile_try_def)
    next
      case (Inr fsys')
      with live acc remove_gone [OF Inr] show ?thesis
        by (simp add: deleteFile_def deleteFile_try_def)
    qed
  qed
qed

theorem deleteFile_contract_witness:
  "dryRun (linux_ctx True)
   \<and> deleteFile (linux_ctx True) \<lparr>fs = ro_fs, errors = []\<rparr> ''/tmp/old.tmp''
       = (\<lparr>deleted = True, size_bytes = 10\<rparr>, \<lparr>fs = ro_fs, errors = []\<rparr>)
   \<and> \<not> dryRun (linux_ctx False)
   \<and> deleteFile (linux_ctx False) \<lparr>fs = ro_fs, errors = []\<rparr> ''/tmp/old.tmp''
       = (\<lparr>deleted = True, size_bytes = 10\<rparr>,
          \<lparr>fs = [(''/tmp'', dir_node),
                 (''/tmp/locked.tmp'', (file_node 20 0)\<lparr>n_writable := False\<rparr>)],
           errors = []\<rparr>)
   \<and> deleteFile (linux_ctx False) \<lparr>fs = ro_fs, errors = []\<rparr> ''/tmp/locked.tmp''
       = (\<lparr>deleted = False, size_bytes = 0\<rparr>,
          \<lparr>fs = ro_fs,
           errors = [''Failed to delete /tmp/locked.tmp: EACCES: permission denied, access /tmp/locked.tmp'']\<rparr>)"
  using deleteFile_contract [of "linux_ctx True" "\<lparr>fs = ro_fs, errors = []\<rparr>" "''/tmp/old.tmp''"]
    deleteFile_contract [of "linux_ctx False" "\<lparr>fs = ro_fs, errors = []\<rparr>" "''/tmp/old.tmp''"]
    deleteFile_contract [of "linux_ctx False" "\<lparr>fs = ro_fs, errors = []\<rparr>" "''/tmp/locked.tmp''"]
  by (simp add: linux_ctx_def ro_fs_def deleteFile_def deleteFile_try_def getFileSize_def stat_def
      lookup_def access_W_def remove_def purge_def below_def dir_prefix_def dirname_def sep_def
      file_node_def dir_node_def)

text \<open>
  C10. On a dry run \<open>deleteFile\<close> reports \<open>deleted = true\<close> for every path, with size 0 for
  a path that does not exist. Hence, for a path whose write-access check fails (missing or
  read-only), the counting loop of a dry run adds the file to \<open>filesDeleted\<close>, while the
  same step of a live run leaves the counts alone and records an error.
\<close>

theorem dryRun_reports_deleted:
  "deleted (fst (deleteFile (c\<lparr>dryRun := True\<rparr>) st p))
   \<and> (lookup (fs st) p = None \<longrightarrow>
        size_bytes (fst (deleteFile (c\<lparr>dryRun := True\<rparr>) st p)) = 0)
   \<and> (\<forall>e. access_W (fs st) p = Inl e \<longrightarrow>
        delete_step (c\<lparr>dryRun := True\<rparr>) False p (cnt, st)
          = (\<lparr>filesDeleted = filesDeleted cnt + 1,
              spaceSaved = spaceSaved cnt + getFileSize (fs st) p\<rparr>, st)
        \<and> delete_step (c\<lparr>dryRun := False\<rparr>) False p (cnt, st)
          = (cnt, st\<lparr>errors := errors st @
                        [''Failed to delete '' @ p @ '': '' @ message e]\<rparr>))"
  by (simp add: deleteFile_def deleteFile_try_def delete_step_def getFileSize_def stat_def)

theorem dryRun_reports_deleted_witness:
  "lookup ro_fs ''/tmp/gone.tmp'' = None
   \<and> deleteFile (linux_ctx True) \<lparr>fs = ro_fs, errors = []\<rparr> ''/tmp/gone.tmp''
       = (\<lparr>deleted = True, size_bytes = 0\<rparr>, \<lparr>fs = ro_fs, errors = []\<rparr>)
   \<and> access_W ro_fs ''/tmp/locked.tmp''
       = Inl (Error ''EACCES: permission denied, access /tmp/locked.tmp'')
   \<and> fst (delete_step (linux_ctx True) False ''/tmp/locked.tmp''
            (no_counts, \<lparr>fs = ro_fs, errors = []\<rparr>))
       = \<lparr>filesDeleted = 1, spaceSaved = 20\<rparr>
   \<and> delete_step (linux_ctx False) False ''/tmp/locked.tmp''
         (no_counts, \<lparr>fs = ro_fs, errors = []\<rparr>)
       = (no_counts,
          \<lparr>fs = ro_fs,
           errors = [''Failed to delete /tmp/locked.tmp: EACCES: permission denied, access /tmp/locked.tmp'']\<rparr>)"
proof -
  have dry: "(linux_ctx False)\<lparr>dryRun := True\<rparr> = linux_ctx True"
    and live: "(linux_ctx False)\<lparr>dryRun := False\<rparr> = linux_ctx False"
    by (simp_all add: linux_ctx_def)
  have gone: "lookup ro_fs ''/tmp/gone.tmp'' = None"
    by (simp add: lookup_def ro_fs_def)
  have acc: "access_W ro_fs ''/tmp/locked.tmp''
               = Inl (Error ''EACCES: permission denied, access /tmp/locked.tmp'')"
    by (simp add: access_W_def lookup_def ro_fs_def file_node_def)
  have sz: "getFileSize ro_fs ''/tmp/locked.tmp'' = 20"
    by (simp add: getFileSize_def stat_def lookup_def ro_fs_def file_node_def)
  note a = dryRun_reports_deleted [of "linux_ctx False" "\<lparr>fs = ro_fs, errors = []\<rparr>"
      "''/tmp/gone.tmp''" no_counts, unfolded dry live]
  note b = dryRun_reports_deleted [of "linux_ctx False" "\<lparr>fs = ro_fs, errors = []\<rparr>"
      "''/tmp/locked.tmp''" no_counts, unfolded dry live]
  from a gone have 1: "deleteFile (linux_ctx True) \<lparr>fs = ro_fs, errors = []\<rparr> ''/tmp/gone.tmp''
       = (\<lparr>deleted = True, size_bytes = 0\<rparr>, \<lparr>fs = ro_fs, errors = []\<rparr>)"
    by (simp add: deleteFile_def deleteFile_try_def linux_ctx_def prod_eq_iff)
  from b acc sz show ?thesis using gone 1
    by (simp add: no_counts_def)
qed

subsection \<open>The orchestrator\<close>

lemma run_task_eq:
  "t (world m) = (out, w) \<Longrightarrow>
     run_task name organized large t m =
       (case_sum (failed_result name organized large) id out,
        \<lparr>results = results m @ [case_sum (failed_result name organized large) id out],
         world = w\<rparr>)"
  by (cases out) (simp_all add: run_task_def)

text \<open>
  C8. \<open>runAllTasks\<close> runs the six tasks in the order temp, cache, browser, trash,
  downloads, large files, each on the file system the previous one left, whatever the
  previous ones returned or threw. It appends exactly six results in that order: the
  task's own result when it returned, and otherwise the result built in the \<open>catch\<close>
  block, which carries the task's name, zero counts and exactly one error message.
\<close>

theorem runAllTasks_isolated:
  "(case temp_task ts (world m) of (o1, w1) \<Rightarrow>
    case cache_task ts w1 of (o2, w2) \<Rightarrow>
    case browser_task ts w2 of (o3, w3) \<Rightarrow>
    case trash_task ts w3 of (o4, w4) \<Rightarrow>
    case downloads_task ts w4 of (o5, w5) \<Rightarrow>
    case large_task ts w5 of (o6, w6) \<Rightarrow>
      runAllTasks ts m =
        \<lparr>results = results m @
           [case_sum (failed_result ''temp'' None None) id o1,
            case_sum (failed_result ''cache'' None None) id o2,
            case_sum (failed_result ''browsers'' None None) id o3,
            case_sum (failed_result ''trash'' None None) id o4,
            case_sum (failed_result ''downloads'' (Some 0) None) id o5,
            case_sum (failed_result ''largeFiles'' None (Some [])) id o6],
         world = w6\<rparr>)
   \<and> (\<forall>name organized large e.
         filesDeleted (failed_result name organized large e) = 0
         \<and> spaceSaved (failed_result name organized large e) = 0
         \<and> task (failed_result name organized large e) = name
         \<and> length (res_errors (failed_result name organized large e)) = 1)"
proof (intro conjI allI)
  obtain o1 w1 where e1: "temp_task ts (world m) = (o1, w1)" by (cases "temp_task ts (world m)")
  obtain o2 w2 where e2: "cache_task ts w1 = (o2, w2)" by (cases "cache_task ts w1")
  obtain o3 w3 where e3: "browser_task ts w2 = (o3, w3)" by (cases "browser_task ts w2")
  obtain o4 w4 where e4: "trash_task ts w3 = (o4, w4)" by (cases "trash_task ts w3")
  obtain o5 w5 where e5: "downloads_task ts w4 = (o5, w5)" by (cases "downloads_task ts w4")
  obtain o6 w6 where e6: "large_task ts w5 = (o6, w6)" by (cases "large_task ts w5")
  let ?r1 = "case_sum (failed_result ''temp'' None None) id o1"
  let ?r2 = "case_sum (failed_result ''cache'' None None) id o2"
  let ?r3 = "case_sum (failed_result ''browsers'' None None) id o3"
  let ?r4 = "case_sum (failed_result ''trash'' None None) id o4"
  let ?r5 = "case_sum (failed_result ''downloads'' (Some 0) None) id o5"
  let ?r6 = "case_sum (failed_result ''largeFiles'' None (Some [])) id o6"
  have s1: "snd (cleanTempFiles ts m) = \<lparr>results = results m @ [?r1], world = w1\<rparr>"
    by (simp add: cleanTempFiles_def run_task_eq e1)
  have s2: "snd (cleanCacheFiles ts \<lparr>results = results m @ [?r1], world = w1\<rparr>)
              = \<lparr>results = results m @ [?r1, ?r2], world = w2\<rparr>"
    by (simp add: cleanCacheFiles_def run_task_eq e2)
  have s3: "snd (cleanBrowserCaches ts \<lparr>results = results m @ [?r1, ?r2], world = w2\<rparr>)
              = \<lparr>results = results m @ [?r1, ?r2, ?r3], world = w3\<rparr>"
    by (simp add: cleanBrowserCaches_def run_task_eq e3)
  have s4: "snd (emptyTrash ts \<lparr>results = results m @ [?r1, ?r2, ?r3], world = w3\<rparr>)
              = \<lparr>results = results m @ [?r1, ?r2, ?r3, ?r4], world = w4\<rparr>"
    by (simp add: emptyTrash_def run_task_eq e4)
  have s5: "snd (organizeDownloads_task ts
                   \<lparr>results = results m @ [?r1, ?r2, ?r3, ?r4], world = w4\<rparr>)
              = \<lparr>results = results m @ [?r1, ?r2, ?r3, ?r4, ?r5], world = w5\<rparr>"
    by (simp add: organizeDownloads_task_def run_task_eq e5)
  have s6: "snd (findLargeFiles ts
                   \<lparr>results = results m @ [?r1, ?r2, ?r3, ?r4, ?r5], world = w5\<rparr>)
              = \<lparr>results = results m @ [?r1, ?r2, ?r3, ?r4, ?r5, ?r6], world = w6\<rparr>"
    by (simp add: findLargeFiles_def run_task_eq e6)
  have "runAllTasks ts m = \<lparr>results = results m @ [?r1, ?r2, ?r3, ?r4, ?r5, ?r6], world = w6\<rparr>"
    unfolding runAllTasks_def s1 s2 s3 s4 s5 s6 ..
  then show "case temp_task ts (world m) of (o1, w1) \<Rightarrow>
    case cache_task ts w1 of (o2, w2) \<Rightarrow>
    case browser_task ts w2 of (o3, w3) \<Rightarrow>
    case trash_task ts w3 of (o4, w4) \<Rightarrow>
    case downloads_task ts w4 of (o5, w5) \<Rightarrow>
    case large_task ts w5 of (o6, w6) \<Rightarrow>
      runAllTasks ts m =
        \<lparr>results = results m @
           [case_sum (failed_result ''temp'' None None) id o1,
            case_sum (failed_result ''cache'' None None) id o2,
            case_sum (failed_result ''browsers'' None None) id o3,
            case_sum (failed_result ''trash'' None None) id o4,
            case_sum (failed_result ''downloads'' (Some 0) None) id o5,
            case_sum (failed_result ''largeFiles'' None (Some [])) id o6],
         world = w6\<rparr>"
    unfolding e1 e2 e3 e4 e5 e6 prod.case .
qed (simp_all add: failed_result_def)

subsection \<open>Loading the configuration\<close>

lemma get_set_prop: "map_of (set_prop k v kvs) k' = (if k' = k then Some v else map_of kvs k')"
  by (induction kvs) auto

lemma map_of_assign:
  "map_of (fold (\<lambda>(k, v). set_prop k v) src tgt) k =
     (case map_of (rev src) k of None \<Rightarrow> map_of tgt k | Some v \<Rightarrow> Some v)"
proof (induction src arbitrary: tgt)
  case Nil
  show ?case by simp
next
  case (Cons kv src)
  obtain k0 v0 where kv: "kv = (k0, v0)" by (cases kv)
  show ?case
    by (simp add: kv Cons.IH get_set_prop map_of_append map_add_def split: option.splits)
qed

lemma loadConfig_top_level:
  "get_prop (loadConfig os home (Some (Inr (JObj doc)))) k =
     (case map_of (rev doc) k of
        None \<Rightarrow> get_prop (config_json (createDefaultConfig os home)) k
      | Some v \<Rightarrow> Some v)"
  by (simp add: loadConfig_def spread2_def map_of_assign config_json_def split: option.splits)

text \<open>
  C9. A document that sets one browser flag replaces the whole \<open>browsers\<close> object: the merge
  is a shallow spread, so the flags the document leaves out are absent from the loaded
  configuration instead of taking their defaults (the default for \<open>firefox\<close> is \<open>true\<close>).
  Top-level fields the document leaves out do take their defaults (\<open>loadConfig_top_level\<close>).
\<close>

theorem loadConfig_nested_not_merged:
  "get_prop (loadConfig Linux ''/home/u''
       (Some (Inr (JObj [(''browsers'', JObj [(''chrome'', JBool False)])])))) ''browsers''
     = Some (JObj [(''chrome'', JBool False)])
   \<and> get_prop (config_json (createDefaultConfig Linux ''/home/u'')) ''browsers''
     = Some (JObj [(''chrome'', JBool True), (''firefox'', JBool True),
                   (''edge'', JBool True), (''safari'', JBool False)])
   \<and> get_prop (loadConfig Linux ''/home/u''
       (Some (Inr (JObj [(''browsers'', JObj [(''chrome'', JBool False)])])))) ''maxFileAge''
     = Some (JNum 0)"
  by (simp add: loadConfig_top_level) (simp add: config_json_def createDefaultConfig_def)

subsection \<open>Dry runs\<close>

lemma fold_keeps_fs:
  assumes "\<And>x acc. fs (snd (step x acc)) = fs (snd acc)"
  shows "fs (snd (fold step xs acc)) = fs (snd acc)"
  by (induction xs arbitrary: acc) (simp_all add: assms)

lemma findFiles_fs: "fs (snd (findFiles c st ps ex)) = fs st"
  by (simp add: findFiles_def Let_def split: sum.splits)

lemma findDirectories_fs: "fs (snd (findDirectories c st ps ex)) = fs st"
  by (simp add: findDirectories_def split: sum.splits)

lemma deleteFile_dry: "dryRun c \<Longrightarrow> snd (deleteFile c st p) = st"
  by (simp add: deleteFile_def deleteFile_try_def)

lemma deleteDirectory_dry: "dryRun c \<Longrightarrow> snd (deleteDirectory c st p) = st"
  by (simp add: deleteDirectory_def deleteDirectory_try_def)

lemma delete_step_dry: "dryRun c \<Longrightarrow> fs (snd (delete_step c aged f acc)) = fs (snd acc)"
  using deleteFile_dry [of c "snd acc" f]
  by (cases acc) (simp add: delete_step_def case_prod_beta)

lemma rmdir_step_dry: "dryRun c \<Longrightarrow> fs (snd (rmdir_step c d acc)) = fs (snd acc)"
  using deleteDirectory_dry [of c "snd acc" d]
  by (cases acc) (simp add: rmdir_step_def case_prod_beta)

lemma cleanTempPath_dry:
  assumes "dryRun c"
  shows "fs (snd (cleanTempPath c st p)) = fs st"
proof -
  obtain files st1 where 1: "findFiles c st (tempFilePatterns p) [] = (files, st1)"
    by (cases "findFiles c st (tempFilePatterns p) []")
  obtain cnt st2 where 2: "fold (delete_step c True) files (no_counts, st1) = (cnt, st2)"
    by (cases "fold (delete_step c True) files (no_counts, st1)")
  obtain dirs st3 where 3: "findDirectories c st2 [join2 p ''*/''] [] = (dirs, st3)"
    by (cases "findDirectories c st2 [join2 p ''*/''] []")
  have "fs st1 = fs st" using findFiles_fs [of c st "tempFilePatterns p" "[]"] by (simp add: 1)
  moreover have "fs st2 = fs st1"
    using fold_keeps_fs [of "delete_step c True" files "(no_counts, st1)"]
    by (simp add: 2 delete_step_dry assms)
  moreover have "fs st3 = fs st2"
    using findDirectories_fs [of c st2 "[join2 p ''*/'']" "[]"] by (simp add: 3)
  moreover have "fs (snd (fold (rmdir_step c) dirs (cnt, st3))) = fs st3"
    using fold_keeps_fs [of "rmdir_step c" dirs "(cnt, st3)"]
    by (simp add: rmdir_step_dry assms)
  ultimately show ?thesis by (simp add: cleanTempPath_def 1 2 3)
qed

lemma per_path_keeps:
  assumes "\<And>st p. fs (snd (cleanPath st p)) = fs st"
  shows "fs (snd (per_path cleanPath p acc)) = fs (snd acc)"
  using assms [of "snd acc" p]
  by (cases acc) (simp add: per_path_def case_prod_beta)

lemma TempCleaner_clean_dry: "dryRun c \<Longrightarrow> snd (TempCleaner_clean c fsys) = fsys"
  using fold_keeps_fs [of "per_path (cleanTempPath c)" "getTempPaths c"
      "(no_counts, \<lparr>fs = fsys, errors = []\<rparr>)", OF per_path_keeps]
  by (simp add: TempCleaner_clean_def cleanTempPath_dry case_prod_beta)

lemma empty_tree_dry:
  assumes "dryRun c"
  shows "fs (snd (empty_tree c root acc)) = fs (snd acc)"
proof -
  obtain cnt st where a: "acc = (cnt, st)" by (cases acc)
  obtain files st1 where 1: "findFiles c st [joinAll root [''**'', ''*'']] [] = (files, st1)"
    by (cases "findFiles c st [joinAll root [''**'', ''*'']] []")
  obtain cnt2 st2 where 2: "fold (delete_step c False) files (cnt, st1) = (cnt2, st2)"
    by (cases "fold (delete_step c False) files (cnt, st1)")
  obtain dirs st3 where 3: "findDirectories c st2 [join2 root ''**''] [] = (dirs, st3)"
    by (cases "findDirectories c st2 [join2 root ''**''] []")
  have "fs st1 = fs st"
    using findFiles_fs [of c st "[joinAll root [''**'', ''*'']]" "[]"] by (simp add: 1)
  moreover have "fs st2 = fs st1"
    using fold_keeps_fs [of "delete_step c False" files "(cnt, st1)"]
    by (simp add: 2 delete_step_dry assms)
  moreover have "fs st3 = fs st2"
    using findDirectories_fs [of c st2 "[join2 root ''**'']" "[]"] by (simp add: 3)
  moreover have "fs (snd (fold (rmdir_step c) (rev dirs) (cnt2, st3))) = fs st3"
    using fold_keeps_fs [of "rmdir_step c" "rev dirs" "(cnt2, st3)"]
    by (simp add: rmdir_step_dry assms)
  ultimately show ?thesis by (simp add: empty_tree_def a 1 2 3)
qed

lemma cleanWindowsRecycleBin_dry:
  assumes "dryRun c"
  shows "fs (snd (cleanWindowsRecycleBin c st p)) = fs st"
proof -
  obtain folders st1 where 1: "findDirectories c st [join2 p ''S-*''] [] = (folders, st1)"
    by (cases "findDirectories c st [join2 p ''S-*''] []")
  have "fs st1 = fs st"
    using findDirectories_fs [of c st "[join2 p ''S-*'']" "[]"] by (simp add: 1)
  moreover have "fs (snd (fold (empty_tree c) folders (no_counts, st1))) = fs st1"
    using fold_keeps_fs [of "empty_tree c" folders "(no_counts, st1)"]
    by (simp add: empty_tree_dry assms)
  ultimately show ?thesis by (simp add: cleanWindowsRecycleBin_def 1)
qed

lemma cleanLinuxTrash_dry:
  assumes "dryRun c"
  shows "fs (snd (cleanLinuxTrash c st p)) = fs st"
proof -
  let ?first = "if pathExists (fs st) (join2 p ''files'')
                then empty_tree c (join2 p ''files'') (no_counts, st) else (no_counts, st)"
  obtain cnt st1 where 1: "?first = (cnt, st1)" by (cases ?first)
  have f1: "fs st1 = fs st"
    using empty_tree_dry [OF assms, of "join2 p ''files''" "(no_counts, st)"] 1
    by (auto split: if_splits)
  obtain infoFiles st2 where 2:
    "findFiles c st1 [join2 (join2 p ''info'') ''*.trashinfo''] [] = (infoFiles, st2)"
    by (cases "findFiles c st1 [join2 (join2 p ''info'') ''*.trashinfo''] []")
  have f2: "fs st2 = fs st1"
    using findFiles_fs [of c st1 "[join2 (join2 p ''info'') ''*.trashinfo'']" "[]"]
    by (simp add: 2)
  have f3: "fs (snd (fold (delete_step c False) infoFiles (cnt, st2))) = fs st2"
    using fold_keeps_fs [of "delete_step c False" infoFiles "(cnt, st2)"]
    by (simp add: delete_step_dry assms)
  show ?thesis
    using 1 by (simp add: cleanLinuxTrash_def Let_def 2 f1 f2 f3)
qed

lemma emptyTrashDirectory_dry:
  "dryRun c \<Longrightarrow> fs (snd (emptyTrashDirectory c st p)) = fs st"
  using cleanWindowsRecycleBin_dry [of c st p] cleanLinuxTrash_dry [of c st p]
    empty_tree_dry [of c p "(no_counts, st)"]
  by (simp add: emptyTrashDirectory_def case_prod_beta split: os_type.splits)

lemma cleanTrashPath_dry:
  assumes "dryRun c"
  shows "fs (snd (cleanTrashPath c st p)) = fs st"
proof -
  let ?step = "\<lambda>matchedPath acc.
                   case acc of (cnt, st2) \<Rightarrow>
                   case emptyTrashDirectory c st2 matchedPath of (result, st3) \<Rightarrow>
                     (add_counts cnt result, st3)"
  have step: "fs (snd (?step x acc)) = fs (snd acc)" for x acc
    using emptyTrashDirectory_dry [OF assms, of "snd acc" x]
    by (cases acc) (simp add: case_prod_beta)
  obtain ms st1 where 1: "findDirectories c st [p] [] = (ms, st1)"
    by (cases "findDirectories c st [p] []")
  have f1: "fs st1 = fs st" using findDirectories_fs [of c st "[p]" "[]"] by (simp add: 1)
  have f2: "fs (snd (fold ?step ms (no_counts, st1))) = fs st1"
    using fold_keeps_fs [of ?step ms "(no_counts, st1)", OF step] by simp
  show ?thesis
  proof (cases "str_includes p ''*''")
    case True
    then have "cleanTrashPath c st p = fold ?step ms (no_counts, st1)"
      by (simp add: cleanTrashPath_def 1)
    with f1 f2 show ?thesis by simp
  next
    case False
    with emptyTrashDirectory_dry [OF assms, of st p] show ?thesis
      by (simp add: cleanTrashPath_def case_prod_beta)
  qed
qed

lemma TrashCleaner_clean_dry: "dryRun c \<Longrightarrow> snd (TrashCleaner_clean c fsys) = fsys"
  using fold_keeps_fs [of "per_path (cleanTrashPath c)" "getTrashPaths c"
      "(no_counts, \<lparr>fs = fsys, errors = []\<rparr>)", OF per_path_keeps]
  by (simp add: TrashCleaner_clean_def cleanTrashPath_dry case_prod_beta)

lemma find_listed:
  "map_option fst (find (\<lambda>(category, extensions). extension \<in> set extensions) cats) \<noteq> None
     \<longleftrightarrow> list_ex (listed_in extension) cats"
  by (induction cats) (auto simp: listed_in_def)

lemma getCategory_listed:
  "getCategoryForExtension c extension \<noteq> None
     \<longleftrightarrow> list_ex (listed_in extension) (categories (organizeDownloads (config c)))"
  by (simp only: getCategoryForExtension_def find_listed)

lemma categorised_lookup:
  "categorised c f \<longleftrightarrow>
     (toLowerCase (extname (basename f)) \<noteq> [] \<and> \<not> startsWith (basename f) ''.''
      \<and> getCategoryForExtension c (toLowerCase (extname (basename f))) \<noteq> None)"
  by (simp only: categorised_def getCategory_listed)

lemma organizeFile_dry: "dryRun c \<Longrightarrow> organizeFile c st f d = (categorised c f, st)"
  by (auto simp: organizeFile_def organizeFile_try_def categorised_lookup Let_def
      split: option.splits)

lemma organizeFile_cases:
  assumes "organizeFile c st f d = (b, st')"
  shows "(errors st' = errors st \<and> b = categorised c f)
         \<or> (\<exists>m. errors st' = errors st @ [m] \<and> \<not> b)"
proof (cases "fst (organizeFile_try c (fs st) f d)")
  case (Inl e)
  with assms show ?thesis
    by (auto simp: organizeFile_def split: prod.splits sum.splits)
next
  case (Inr r)
  then have "r = categorised c f"
    by (auto simp: organizeFile_try_def categorised_lookup Let_def
        split: option.splits sum.splits if_splits)
  with Inr assms show ?thesis
    by (auto simp: organizeFile_def split: prod.splits sum.splits)
qed

lemma organize_step_apply:
  "organize_step c d f (n, st) =
     (if fst (organizeFile c st f d) then n + 1 else n, snd (organizeFile c st f d))"
  by (simp add: organize_step_def case_prod_beta)

lemma organize_fold_dry:
  "dryRun c \<Longrightarrow>
     fold (organize_step c d) files (n, st) = (n + length (filter (categorised c) files), st)"
  by (induction files arbitrary: n) (simp_all add: organize_step_apply organizeFile_dry)

lemma organize_fold_cases:
  "fold (organize_step c d) files (n, st) = (n', st') \<Longrightarrow>
     (\<exists>ms. errors st' = errors st @ ms)
     \<and> (errors st' = errors st \<longrightarrow> n' = n + length (filter (categorised c) files))"
proof (induction files arbitrary: n st)
  case Nil
  then show ?case by simp
next
  case (Cons f files)
  obtain b st1 where s: "organizeFile c st f d = (b, st1)"
    by (cases "organizeFile c st f d")
  from Cons.prems have rest:
    "fold (organize_step c d) files (if b then n + 1 else n, st1) = (n', st')"
    by (simp add: organize_step_apply s)
  from Cons.IH [OF rest] obtain ms where
    ms: "errors st' = errors st1 @ ms"
    and cnt: "errors st' = errors st1 \<Longrightarrow>
                n' = (if b then n + 1 else n) + length (filter (categorised c) files)"
    by blast
  from organizeFile_cases [OF s] show ?case
  proof
    assume "errors st1 = errors st \<and> b = categorised c f"
    with ms cnt show ?thesis by auto
  next
    assume "\<exists>m. errors st1 = errors st @ [m] \<and> \<not> b"
    with ms show ?thesis by auto
  qed
qed

lemma organize_unfold:
  "organize c fsys =
     (if \<not> enabled (organizeDownloads (config c)) then
        (downloads_result 0 [''Downloads organization is disabled in config''], fsys)
      else if \<not> pathExists fsys (downloadsPath (config c)) then
        (downloads_result 0 [''Downloads folder not found: '' @ downloadsPath (config c)], fsys)
      else
        (case findFiles c \<lparr>fs = fsys, errors = []\<rparr> [join2 (downloadsPath (config c)) ''*''] [] of
           (files, st) \<Rightarrow>
             (case fold (organize_step c (downloadsPath (config c))) files (0, st) of
                (n, st') \<Rightarrow> (downloads_result n (errors st'), fs st'))))"
  unfolding organize_def ..

lemma organize_dry: "dryRun c \<Longrightarrow> snd (organize c fsys) = fsys"
  using findFiles_fs [of c "\<lparr>fs = fsys, errors = []\<rparr>" "[join2 (downloadsPath (config c)) ''*'']" "[]"]
  by (simp add: organize_unfold organize_fold_dry case_prod_beta)

lemma categorised_dryRun [simp]: "categorised (c\<lparr>dryRun := x\<rparr>) = categorised c"
  by (rule ext) (simp add: categorised_def)

lemma findFiles_dryRun [simp]: "findFiles (c\<lparr>dryRun := x\<rparr>) = findFiles c"
  by (rule ext)+ (simp add: findFiles_def)

lemma organize_counts_agree:
  assumes "res_errors (fst (organize (c\<lparr>dryRun := False\<rparr>) fsys)) = []"
  shows "filesOrganized (fst (organize (c\<lparr>dryRun := True\<rparr>) fsys))
           = filesOrganized (fst (organize (c\<lparr>dryRun := False\<rparr>) fsys))"
proof (cases "enabled (organizeDownloads (config c)) \<and> pathExists fsys (downloadsPath (config c))")
  case False
  then show ?thesis by (auto simp: organize_unfold)
next
  case True
  let ?d = "downloadsPath (config c)"
  obtain files st where ff: "findFiles c \<lparr>fs = fsys, errors = []\<rparr> [join2 ?d ''*''] [] = (files, st)"
    by (cases "findFiles c \<lparr>fs = fsys, errors = []\<rparr> [join2 ?d ''*''] []")
  obtain n st' where live:
    "fold (organize_step (c\<lparr>dryRun := False\<rparr>) ?d) files (0, st) = (n, st')"
    by (cases "fold (organize_step (c\<lparr>dryRun := False\<rparr>) ?d) files (0, st)")
  from True ff live have l: "fst (organize (c\<lparr>dryRun := False\<rparr>) fsys) = downloads_result n (errors st')"
    by (simp add: organize_unfold)
  with assms have none: "errors st' = []" by (simp add: downloads_result_def)
  from organize_fold_cases [OF live] none have "errors st = []" and
    "errors st' = errors st \<longrightarrow> n = 0 + length (filter (categorised c) files)"
    by auto
  with none have n: "n = length (filter (categorised c) files)" by simp
  from True ff have "fst (organize (c\<lparr>dryRun := True\<rparr>) fsys)
      = downloads_result (length (filter (categorised c) files)) (errors st)"
    by (simp add: organize_unfold organize_fold_dry)
  with l n show ?thesis by (simp add: downloads_result_def)
qed

text \<open>
  C1, as amended. On a dry run \<open>deleteFile\<close>, \<open>deleteDirectory\<close>, \<open>organizeFile\<close>, the whole
  downloads task and the temp and trash tasks leave the file system exactly as it was.
  What a dry-run call reports (\<open>deleted\<close> and \<open>size\<close>, or whether the file was organized,
  or \<open>filesOrganized\<close>) equals what the live call reports from the same state whenever the
  live call records no error.
\<close>

theorem dryRun_frame:
  "snd (deleteFile (c\<lparr>dryRun := True\<rparr>) st p) = st
   \<and> snd (deleteDirectory (c\<lparr>dryRun := True\<rparr>) st p) = st
   \<and> snd (organizeFile (c\<lparr>dryRun := True\<rparr>) st p d) = st
   \<and> snd (organize (c\<lparr>dryRun := True\<rparr>) fsys) = fsys
   \<and> snd (TempCleaner_clean (c\<lparr>dryRun := True\<rparr>) fsys) = fsys
   \<and> snd (TrashCleaner_clean (c\<lparr>dryRun := True\<rparr>) fsys) = fsys
   \<and> (errors (snd (deleteFile (c\<lparr>dryRun := False\<rparr>) st p)) = errors st \<longrightarrow>
        fst (deleteFile (c\<lparr>dryRun := True\<rparr>) st p) = fst (deleteFile (c\<lparr>dryRun := False\<rparr>) st p))
   \<and> (errors (snd (deleteDirectory (c\<lparr>dryRun := False\<rparr>) st p)) = errors st \<longrightarrow>
        fst (deleteDirectory (c\<lparr>dryRun := True\<rparr>) st p)
          = fst (deleteDirectory (c\<lparr>dryRun := False\<rparr>) st p))
   \<and> (errors (snd (organizeFile (c\<lparr>dryRun := False\<rparr>) st p d)) = errors st \<longrightarrow>
        fst (organizeFile (c\<lparr>dryRun := True\<rparr>) st p d)
          = fst (organizeFile (c\<lparr>dryRun := False\<rparr>) st p d))
   \<and> (res_errors (fst (organize (c\<lparr>dryRun := False\<rparr>) fsys)) = [] \<longrightarrow>
        filesOrganized (fst (organize (c\<lparr>dryRun := True\<rparr>) fsys))
          = filesOrganized (fst (organize (c\<lparr>dryRun := False\<rparr>) fsys)))"
proof (intro conjI impI)
  show "snd (deleteFile (c\<lparr>dryRun := True\<rparr>) st p) = st" by (simp add: deleteFile_dry)
  show "snd (deleteDirectory (c\<lparr>dryRun := True\<rparr>) st p) = st" by (simp add: deleteDirectory_dry)
  show "snd (organizeFile (c\<lparr>dryRun := True\<rparr>) st p d) = st" by (simp add: organizeFile_dry)
  show "snd (organize (c\<lparr>dryRun := True\<rparr>) fsys) = fsys" by (simp add: organize_dry)
  show "snd (TempCleaner_clean (c\<lparr>dryRun := True\<rparr>) fsys) = fsys"
    by (simp add: TempCleaner_clean_dry)
  show "snd (TrashCleaner_clean (c\<lparr>dryRun := True\<rparr>) fsys) = fsys"
    by (simp add: TrashCleaner_clean_dry)
next
  assume "errors (snd (deleteFile (c\<lparr>dryRun := False\<rparr>) st p)) = errors st"
  then show "fst (deleteFile (c\<lparr>dryRun := True\<rparr>) st p)
               = fst (deleteFile (c\<lparr>dryRun := False\<rparr>) st p)"
    by (auto simp: deleteFile_def deleteFile_try_def split: sum.splits)
next
  assume "errors (snd (deleteDirectory (c\<lparr>dryRun := False\<rparr>) st p)) = errors st"
  then show "fst (deleteDirectory (c\<lparr>dryRun := True\<rparr>) st p)
               = fst (deleteDirectory (c\<lparr>dryRun := False\<rparr>) st p)"
    by (auto simp: deleteDirectory_def deleteDirectory_try_def split: sum.splits)
next
  assume a: "errors (snd (organizeFile (c\<lparr>dryRun := False\<rparr>) st p d)) = errors st"
  obtain b st' where s: "organizeFile (c\<lparr>dryRun := False\<rparr>) st p d = (b, st')"
    by (cases "organizeFile (c\<lparr>dryRun := False\<rparr>) st p d")
  from organizeFile_cases [OF s] a s have "b = categorised c p" by auto
  with s show "fst (organizeFile (c\<lparr>dryRun := True\<rparr>) st p d)
                 = fst (organizeFile (c\<lparr>dryRun := False\<rparr>) st p d)"
    by (simp add: organizeFile_dry)
next
  assume "res_errors (fst (organize (c\<lparr>dryRun := False\<rparr>) fsys)) = []"
  then show "filesOrganized (fst (organize (c\<lparr>dryRun := True\<rparr>) fsys))
               = filesOrganized (fst (organize (c\<lparr>dryRun := False\<rparr>) fsys))"
    by (rule organize_counts_agree)
qed

subsection \<open>Evaluating the model on fixtures\<close>

lemmas fs_defs = lookup_def stat_def access_F_def access_W_def below_def purge_def remove_def
  child_name_def children_def readdir_def readdir_withFileTypes_def dir_writable_def new_dir_def
  rename_path_def move_def pathExists_def dir_prefix_def join2_def joinAll_def dirname_def
  basename_def extname_def parse_name_def sep_def startsWith_def toLowerCase_def lower_char_def
  file_node_def dir_node_def dirent_kind_def getFileSize_def isDirectoryEmpty_def
  getDirectorySize.simps
  ensureDir.simps uniqueLoop.simps

lemmas glob_defs = star_def hidden_def seg_match_def pattern_segs_def pattern_match_def
  base_len_def ignored_def entry_found_def glob_def slashes_def backslash_def findFiles_def
  findDirectories_def

lemmas ctx_defs = linux_ctx_def scenario_ctx_def createDefaultConfig_def

lemmas organize_defs = organize_def organize_step_def organizeFile_def organizeFile_try_def
  getCategoryForExtension_def generateUniqueFileName_def candidate_def downloads_result_def
  target_path_def

lemma scenario_dry:
  "(scenario_ctx False)\<lparr>dryRun := True\<rparr> = scenario_ctx True"
  "(scenario_ctx False)\<lparr>dryRun := False\<rparr> = scenario_ctx False"
  by (simp_all add: ctx_defs)

lemma downloads_deleteFile_live:
  "deleteFile (scenario_ctx False) \<lparr>fs = downloads_fs, errors = []\<rparr> ''/home/u/Downloads/photo.jpg''
     = (\<lparr>deleted = True, size_bytes = 300\<rparr>,
        \<lparr>fs = [(''/home/u/Downloads'', dir_node),
               (''/home/u/Downloads/report.pdf'', file_node 200 0),
               (''/home/u/Downloads/note'', file_node 5 0)], errors = []\<rparr>)"
  by (simp add: deleteFile_def deleteFile_try_def ctx_defs downloads_fs_def fs_defs)

lemma downloads_deleteDirectory_live:
  "deleteDirectory (scenario_ctx False) \<lparr>fs = downloads_fs, errors = []\<rparr> ''/home/u/Downloads''
     = (\<lparr>deleted = True, size_bytes = 505\<rparr>, \<lparr>fs = [], errors = []\<rparr>)"
  by (simp add: deleteDirectory_def deleteDirectory_try_def ctx_defs downloads_fs_def fs_defs)

lemma downloads_organizeFile_live:
  "organizeFile (scenario_ctx False) \<lparr>fs = downloads_fs, errors = []\<rparr>
      ''/home/u/Downloads/photo.jpg'' ''/home/u/Downloads''
     = (True,
        \<lparr>fs = [(''/home/u/Downloads'', dir_node),
               (''/home/u/Downloads/Images/photo.jpg'', file_node 300 0),
               (''/home/u/Downloads/report.pdf'', file_node 200 0),
               (''/home/u/Downloads/note'', file_node 5 0),
               (''/home/u/Downloads/Images'', new_dir (100 * 86400000))], errors = []\<rparr>)"
  by (simp add: organize_defs ctx_defs downloads_fs_def fs_defs Let_def)

lemma downloads_organize_live:
  "organize (scenario_ctx False) downloads_fs
     = (downloads_result 2 [],
        [(''/home/u/Downloads'', dir_node),
         (''/home/u/Downloads/Images/photo.jpg'', file_node 300 0),
         (''/home/u/Downloads/Documents/report.pdf'', file_node 200 0),
         (''/home/u/Downloads/note'', file_node 5 0),
         (''/home/u/Downloads/Images'', new_dir (100 * 86400000)),
         (''/home/u/Downloads/Documents'', new_dir (100 * 86400000))])"
  by (simp add: organize_defs ctx_defs downloads_fs_def fs_defs glob_defs Let_def)

theorem dryRun_frame_witness:
  "errors (snd (deleteFile (scenario_ctx False) \<lparr>fs = downloads_fs, errors = []\<rparr>
             ''/home/u/Downloads/photo.jpg'')) = []
   \<and> deleteFile (scenario_ctx True) \<lparr>fs = downloads_fs, errors = []\<rparr>
         ''/home/u/Downloads/photo.jpg''
       = (\<lparr>deleted = True, size_bytes = 300\<rparr>, \<lparr>fs = downloads_fs, errors = []\<rparr>)
   \<and> errors (snd (deleteDirectory (scenario_ctx False) \<lparr>fs = downloads_fs, errors = []\<rparr>
             ''/home/u/Downloads'')) = []
   \<and> deleteDirectory (scenario_ctx True) \<lparr>fs = downloads_fs, errors = []\<rparr> ''/home/u/Downloads''
       = (\<lparr>deleted = True, size_bytes = 505\<rparr>, \<lparr>fs = downloads_fs, errors = []\<rparr>)
   \<and> errors (snd (organizeFile (scenario_ctx False) \<lparr>fs = downloads_fs, errors = []\<rparr>
             ''/home/u/Downloads/photo.jpg'' ''/home/u/Downloads'')) = []
   \<and> organizeFile (scenario_ctx True) \<lparr>fs = downloads_fs, errors = []\<rparr>
         ''/home/u/Downloads/photo.jpg'' ''/home/u/Downloads''
       = (True, \<lparr>fs = downloads_fs, errors = []\<rparr>)
   \<and> res_errors (fst (organize (scenario_ctx False) downloads_fs)) = []
   \<and> filesOrganized (fst (organize (scenario_ctx True) downloads_fs)) = Some 2
   \<and> snd (organize (scenario_ctx True) downloads_fs) = downloads_fs"
proof -
  let ?st = "\<lparr>fs = downloads_fs, errors = []\<rparr>"
  note onfile = dryRun_frame [of "scenario_ctx False" ?st "''/home/u/Downloads/photo.jpg''"
      "''/home/u/Downloads''" downloads_fs, unfolded scenario_dry]
  note ondir = dryRun_frame [of "scenario_ctx False" ?st "''/home/u/Downloads''"
      "''/home/u/Downloads''" downloads_fs, unfolded scenario_dry]
  have 1: "deleteFile (scenario_ctx True) ?st ''/home/u/Downloads/photo.jpg''
             = (\<lparr>deleted = True, size_bytes = 300\<rparr>, ?st)"
    using onfile by (simp add: downloads_deleteFile_live prod_eq_iff)
  have 2: "deleteDirectory (scenario_ctx True) ?st ''/home/u/Downloads''
             = (\<lparr>deleted = True, size_bytes = 505\<rparr>, ?st)"
    using ondir by (simp add: downloads_deleteDirectory_live prod_eq_iff)
  have 3: "organizeFile (scenario_ctx True) ?st ''/home/u/Downloads/photo.jpg''
             ''/home/u/Downloads'' = (True, ?st)"
    using onfile by (simp add: downloads_organizeFile_live prod_eq_iff)
  have 4: "filesOrganized (fst (organize (scenario_ctx True) downloads_fs)) = Some 2"
    and 5: "snd (organize (scenario_ctx True) downloads_fs) = downloads_fs"
    using onfile by (simp_all add: downloads_organize_live downloads_result_def)
  show ?thesis
    using 1 2 3 4 5
    by (simp add: downloads_deleteFile_live downloads_deleteDirectory_live
        downloads_organizeFile_live downloads_organize_live downloads_result_def)
qed

text \<open>
  C1 as stated fails: for a read-only file the dry run reports \<open>deleted = true\<close> and the
  file's size, the live run from the same state reports \<open>deleted = false\<close> and size 0.
\<close>

theorem dryRun_counts_counterexample:
  "fst (deleteFile (linux_ctx True) \<lparr>fs = ro_fs, errors = []\<rparr> ''/tmp/locked.tmp'')
     = \<lparr>deleted = True, size_bytes = 20\<rparr>
   \<and> fst (deleteFile (linux_ctx False) \<lparr>fs = ro_fs, errors = []\<rparr> ''/tmp/locked.tmp'')
     = \<lparr>deleted = False, size_bytes = 0\<rparr>"
  by (simp add: deleteFile_def deleteFile_try_def linux_ctx_def ro_fs_def fs_defs)

subsection \<open>The large-file scan\<close>

lemma level_join2: "seg n \<Longrightarrow> level (join2 d n) = Suc (level d)"
proof -
  assume "seg n"
  then have "n \<noteq> []" and "sep \<notin> set n" by (simp_all add: seg_def)
  then have "last n \<noteq> sep" by (metis last_in_set)
  with \<open>n \<noteq> []\<close> \<open>sep \<notin> set n\<close> show ?thesis
    by (auto simp add: level_def join2_def dir_prefix_def slash_count_def filter_empty_conv)
qed

lemma slash_count_join2: "seg n \<Longrightarrow> slash_count (join2 d n) = level d"
  by (auto simp: level_def join2_def slash_count_def seg_def filter_empty_conv)

lemma slash_count_joinAll:
  "list_all seg ns \<Longrightarrow> ns \<noteq> [] \<Longrightarrow> slash_count (joinAll d ns) + 1 = level d + length ns"
proof (induction ns arbitrary: d)
  case Nil
  then show ?case by simp
next
  case (Cons n ns)
  show ?case
  proof (cases "ns = []")
    case True
    with Cons.prems show ?thesis by (simp add: joinAll_def slash_count_join2)
  next
    case False
    with Cons.prems Cons.IH [of "join2 d n"] show ?thesis
      by (simp add: joinAll_def level_join2)
  qed
qed

lemma children_seg: "n \<in> set (children fsys d) \<Longrightarrow> seg n"
  by (auto simp: children_def child_name_def seg_def below_def split: if_splits)

lemma dirent_seg:
  "readdir_withFileTypes fsys d = Inr items \<Longrightarrow> item \<in> set items \<Longrightarrow> seg (d_name item)"
  by (auto simp: readdir_withFileTypes_def readdir_def children_seg
      split: sum.splits option.splits if_splits)

lemma fold_subset:
  assumes "\<And>x acc. x \<in> set xs \<Longrightarrow> set (step x acc) \<subseteq> set acc \<union> G"
  shows "set (fold step xs a) \<subseteq> set a \<union> G"
  using assms
proof (induction xs arbitrary: a)
  case Nil
  show ?case by simp
next
  case (Cons x xs)
  have "set (fold step xs (step x a)) \<subseteq> set (step x a) \<union> G"
    by (rule Cons.IH) (simp add: Cons.prems)
  moreover have "set (step x a) \<subseteq> set a \<union> G" by (simp add: Cons.prems)
  ultimately show ?case by auto
qed

lemma traverse_levels:
  "set (traverseDirectory c fsys d found depth)
     \<subseteq> set found \<union> {(p, s). level d \<le> slash_count p \<and> slash_count p + depth \<le> level d + 10}"
proof (induction c fsys d found depth rule: traverseDirectory.induct)
  case (1 c fsys dirPath found depth)
  let ?G = "{(p, s). level dirPath \<le> slash_count p \<and> slash_count p + depth \<le> level dirPath + 10}"
  show ?case
  proof (cases "depth > 10")
    case True
    then show ?thesis by (simp add: traverseDirectory.simps [of c fsys dirPath found depth])
  next
    case shallow: False
    show ?thesis
    proof (cases "readdir_withFileTypes fsys dirPath")
      case (Inl e)
      with shallow show ?thesis
        by (simp add: traverseDirectory.simps [of c fsys dirPath found depth])
    next
      case (Inr items)
      let ?step = "\<lambda>item acc.
                     if shouldSkipPath c (join2 dirPath (d_name item)) (d_name item) then acc
                     else if d_kind item = RegularFile then
                       (case stat fsys (join2 dirPath (d_name item)) of
                          Inl e \<Rightarrow> acc
                        | Inr stats \<Rightarrow>
                            if int (n_size stats) \<ge> largeFileThreshold (config c)
                            then acc @ [(join2 dirPath (d_name item), n_size stats)]
                            else acc)
                     else if d_kind item = Directory then
                       traverseDirectory c fsys (join2 dirPath (d_name item)) acc (depth + 1)
                     else acc"
      have step: "set (?step item acc) \<subseteq> set acc \<union> ?G" if "item \<in> set items" for item acc
      proof -
        from Inr that have sg: "seg (d_name item)" by (rule dirent_seg)
        show ?thesis
        proof (cases "shouldSkipPath c (join2 dirPath (d_name item)) (d_name item)")
          case True
          then show ?thesis by simp
        next
          case keep: False
          show ?thesis
          proof (cases "d_kind item")
            case RegularFile
            with keep shallow sg show ?thesis
              by (auto simp: slash_count_join2 split: sum.splits)
          next
            case Directory
            have "set (traverseDirectory c fsys (join2 dirPath (d_name item)) acc (depth + 1))
                    \<subseteq> set acc \<union> {(p, s). level (join2 dirPath (d_name item)) \<le> slash_count p
                          \<and> slash_count p + (depth + 1) \<le> level (join2 dirPath (d_name item)) + 10}"
              using "1.IH" [OF shallow Inr that keep _ Directory] Directory by simp
            with keep Directory sg show ?thesis
              by (auto simp: level_join2)
          next
            case Other
            with keep show ?thesis by simp
          qed
        qed
      qed
      have "set (fold ?step items found) \<subseteq> set found \<union> ?G"
        by (rule fold_subset) (rule step)
      with shallow Inr show ?thesis
        by (simp add: traverseDirectory.simps [of c fsys dirPath found depth])
    qed
  qed
qed

lemma too_deep_not_found:
  assumes "12 \<le> length ns" and "list_all seg ns"
  shows "joinAll seed ns \<notin> fst ` set (findLargeFilesInPath c fsys seed)"
proof
  assume "joinAll seed ns \<in> fst ` set (findLargeFilesInPath c fsys seed)"
  then obtain s where "(joinAll seed ns, s) \<in> set (traverseDirectory c fsys seed [] 0)"
    by (auto simp: findLargeFilesInPath_def)
  with traverse_levels [of c fsys seed "[]" 0]
  have "slash_count (joinAll seed ns) \<le> level seed + 10" by auto
  moreover from assms have "ns \<noteq> []" by auto
  with assms have "slash_count (joinAll seed ns) + 1 = level seed + length ns"
    using slash_count_joinAll [of ns seed] by simp
  ultimately show False using assms(1) by simp
qed

lemma fold_mono:
  assumes "\<And>x acc. x \<in> set xs \<Longrightarrow> set acc \<subseteq> set (step x acc)"
  shows "set a \<subseteq> set (fold step xs a)"
  using assms
proof (induction xs arbitrary: a)
  case Nil
  show ?case by simp
next
  case (Cons x xs)
  have "set (step x a) \<subseteq> set (fold step xs (step x a))"
    by (rule Cons.IH) (simp add: Cons.prems)
  moreover have "set a \<subseteq> set (step x a)" by (simp add: Cons.prems)
  ultimately show ?case by auto
qed

lemma fold_reaches:
  assumes "x \<in> set xs"
    and "\<And>acc. e \<in> set (step x acc)"
    and "\<And>y acc. y \<in> set xs \<Longrightarrow> set acc \<subseteq> set (step y acc)"
  shows "e \<in> set (fold step xs a)"
  using assms(1,3)
proof (induction xs arbitrary: a)
  case Nil
  then show ?case by simp
next
  case (Cons y ys)
  show ?case
  proof (cases "x = y")
    case True
    have "set (step y a) \<subseteq> set (fold step ys (step y a))"
      by (rule fold_mono) (simp add: Cons.prems)
    with assms(2) [of a] True show ?thesis by auto
  next
    case False
    with Cons.prems have "x \<in> set ys" by simp
    then have "e \<in> set (fold step ys (step y a))"
      by (rule Cons.IH) (simp add: Cons.prems)
    then show ?thesis by simp
  qed
qed

lemma traverse_mono: "set found \<subseteq> set (traverseDirectory c fsys d found depth)"
proof (induction c fsys d found depth rule: traverseDirectory.induct)
  case (1 c fsys dirPath found depth)
  show ?case
  proof (cases "depth > 10")
    case True
    then show ?thesis by (simp add: traverseDirectory.simps [of c fsys dirPath found depth])
  next
    case shallow: False
    show ?thesis
    proof (cases "readdir_withFileTypes fsys dirPath")
      case (Inl e)
      with shallow show ?thesis
        by (simp add: traverseDirectory.simps [of c fsys dirPath found depth])
    next
      case (Inr items)
      let ?step = "\<lambda>item acc.
                     if shouldSkipPath c (join2 dirPath (d_name item)) (d_name item) then acc
                     else if d_kind item = RegularFile then
                       (case stat fsys (join2 dirPath (d_name item)) of
                          Inl e \<Rightarrow> acc
                        | Inr stats \<Rightarrow>
                            if int (n_size stats) \<ge> largeFileThreshold (config c)
                            then acc @ [(join2 dirPath (d_name item), n_size stats)]
                            else acc)
                     else if d_kind item = Directory then
                       traverseDirectory c fsys (join2 dirPath (d_name item)) acc (depth + 1)
                     else acc"
      have step: "set acc \<subseteq> set (?step item acc)" if "item \<in> set items" for item acc
        using "1.IH" [OF shallow Inr that, of acc]
        by (auto split: sum.splits)
      have "set found \<subseteq> set (fold ?step items found)"
        by (rule fold_mono) (rule step)
      with shallow Inr show ?thesis
        by (simp add: traverseDirectory.simps [of c fsys dirPath found depth])
    qed
  qed
qed

lemma listed:
  assumes "listable fsys d" and "seg n" and "lookup fsys (join2 d n) = Some nd"
  shows "\<exists>items. readdir_withFileTypes fsys d = Inr items
           \<and> \<lparr>d_name = n, d_kind = dirent_kind nd\<rparr> \<in> set items"
proof -
  from assms(3) have "(join2 d n, nd) \<in> set fsys"
    by (simp add: lookup_def map_of_SomeD)
  moreover from assms(2) have "child_name d (join2 d n) = [n]"
    by (simp add: child_name_def below_def join2_def seg_def)
  ultimately have "n \<in> set (children fsys d)"
    by (force simp: children_def)
  with assms(1,3) show ?thesis
    by (auto simp: readdir_withFileTypes_def readdir_def listable_def image_iff
        split: option.splits intro!: bexI [of _ n])
qed

lemma traverse_finds:
  assumes "depth \<le> 10" and "listable fsys d" and "seg f"
    and "lookup fsys (join2 d f) = Some nd" and "n_kind nd = RegularFile" and "\<not> n_link nd"
    and "largeFileThreshold (config c) \<le> int (n_size nd)"
    and "\<not> shouldSkipPath c (join2 d f) f"
  shows "(join2 d f, n_size nd) \<in> set (traverseDirectory c fsys d found depth)"
proof -
  from listed [OF assms(2,3,4)] obtain items where
    items: "readdir_withFileTypes fsys d = Inr items"
    and item: "\<lparr>d_name = f, d_kind = dirent_kind nd\<rparr> \<in> set items" by blast
  let ?step = "\<lambda>item acc.
                 if shouldSkipPath c (join2 d (d_name item)) (d_name item) then acc
                 else if d_kind item = RegularFile then
                   (case stat fsys (join2 d (d_name item)) of
                      Inl e \<Rightarrow> acc
                    | Inr stats \<Rightarrow>
                        if int (n_size stats) \<ge> largeFileThreshold (config c)
                        then acc @ [(join2 d (d_name item), n_size stats)]
                        else acc)
                 else if d_kind item = Directory then
                   traverseDirectory c fsys (join2 d (d_name item)) acc (depth + 1)
                 else acc"
  have "(join2 d f, n_size nd) \<in> set (fold ?step items found)"
  proof (rule fold_reaches [OF item])
    show "(join2 d f, n_size nd) \<in> set (?step \<lparr>d_name = f, d_kind = dirent_kind nd\<rparr> acc)" for acc
      using assms(4-8) by (simp add: stat_def dirent_kind_def)
    show "set acc \<subseteq> set (?step y acc)" for y acc
      using traverse_mono [of acc c fsys "join2 d (d_name y)" "depth + 1"]
      by (auto split: sum.splits)
  qed
  with assms(1) items show ?thesis
    by (simp add: traverseDirectory.simps [of c fsys d found depth])
qed

lemma traverse_descends:
  assumes "depth \<le> 10" and "listable fsys d" and "seg n"
    and "lookup fsys (join2 d n) = Some nd" and "n_kind nd = Directory" and "\<not> n_link nd"
    and "\<not> shouldSkipPath c (join2 d n) n"
    and "\<And>acc. e \<in> set (traverseDirectory c fsys (join2 d n) acc (depth + 1))"
  shows "e \<in> set (traverseDirectory c fsys d found depth)"
proof -
  from listed [OF assms(2,3,4)] obtain items where
    items: "readdir_withFileTypes fsys d = Inr items"
    and item: "\<lparr>d_name = n, d_kind = dirent_kind nd\<rparr> \<in> set items" by blast
  let ?step = "\<lambda>item acc.
                 if shouldSkipPath c (join2 d (d_name item)) (d_name item) then acc
                 else if d_kind item = RegularFile then
                   (case stat fsys (join2 d (d_name item)) of
                      Inl e \<Rightarrow> acc
                    | Inr stats \<Rightarrow>
                        if int (n_size stats) \<ge> largeFileThreshold (config c)
                        then acc @ [(join2 d (d_name item), n_size stats)]
                        else acc)
                 else if d_kind item = Directory then
                   traverseDirectory c fsys (join2 d (d_name item)) acc (depth + 1)
                 else acc"
  have "e \<in> set (fold ?step items found)"
  proof (rule fold_reaches [OF item])
    show "e \<in> set (?step \<lparr>d_name = n, d_kind = dirent_kind nd\<rparr> acc)" for acc
      using assms(5-8) by (simp add: dirent_kind_def)
    show "set acc \<subseteq> set (?step y acc)" for y acc
      using traverse_mono [of acc c fsys "join2 d (d_name y)" "depth + 1"]
      by (auto split: sum.splits)
  qed
  with assms(1) items show ?thesis
    by (simp add: traverseDirectory.simps [of c fsys d found depth])
qed

lemma chain_ok_listable: "chain_ok c fsys d ds \<Longrightarrow> listable fsys d"
  by (cases ds) simp_all

lemma chain_ok_end: "chain_ok c fsys d ds \<Longrightarrow> listable fsys (joinAll d ds)"
  by (induction ds arbitrary: d) (simp_all add: joinAll_def)

lemma traverse_chain:
  assumes "length ds + depth \<le> 10" and "chain_ok c fsys d ds" and "seg f"
    and "lookup fsys (joinAll d (ds @ [f])) = Some nd" and "n_kind nd = RegularFile"
    and "\<not> n_link nd"
    and "largeFileThreshold (config c) \<le> int (n_size nd)"
    and "\<not> shouldSkipPath c (joinAll d (ds @ [f])) f"
  shows "(joinAll d (ds @ [f]), n_size nd) \<in> set (traverseDirectory c fsys d found depth)"
  using assms(1,2,4,8)
proof (induction ds arbitrary: d depth found)
  case Nil
  then show ?case
    using traverse_finds [of depth fsys d f nd c found] assms(3,5,6,7)
    by (simp add: joinAll_def)
next
  case (Cons n ds)
  from Cons.prems(2) obtain dn where
    d: "listable fsys d" and n: "seg n" and keep: "\<not> shouldSkipPath c (join2 d n) n"
    and dn: "lookup fsys (join2 d n) = Some dn" "n_kind dn = Directory" "\<not> n_link dn"
    and rest: "chain_ok c fsys (join2 d n) ds"
    by (auto split: option.splits)
  have deeper: "(joinAll d ((n # ds) @ [f]), n_size nd)
                  \<in> set (traverseDirectory c fsys (join2 d n) acc (depth + 1))" for acc
    using Cons.IH [of "depth + 1" "join2 d n" acc] Cons.prems rest
    by (simp add: joinAll_def)
  from Cons.prems(1) have "depth \<le> 10" by simp
  then show ?case
    using d n dn keep deeper by (rule traverse_descends)
qed

text \<open>
  What a scan reports: every entry it adds is a regular file of the table (not a symbolic
  link) with the reported size, which reaches the threshold, and is named by at most
  eleven names below the directory the scan started in, fewer when the scan started at a
  positive depth.
\<close>

lemma dirent_node:
  assumes "readdir_withFileTypes fsys d = Inr items" and "item \<in> set items"
    and "d_kind item \<noteq> Other"
  shows "\<exists>nd. lookup fsys (join2 d (d_name item)) = Some nd
           \<and> n_kind nd = d_kind item \<and> \<not> n_link nd"
  using assms
  by (auto simp: readdir_withFileTypes_def readdir_def dirent_kind_def
      split: sum.splits option.splits if_splits)

lemma reported_file:
  assumes "seg n" and "depth \<le> 10" and "lookup fsys (join2 d n) = Some nd"
    and "n_kind nd = RegularFile" and "\<not> n_link nd"
    and "largeFileThreshold (config c) \<le> int (n_size nd)"
  shows "(join2 d n, n_size nd) \<in> reported c fsys d depth"
proof -
  have "join2 d n = joinAll d [n]" by (simp add: joinAll_def)
  with assms show ?thesis
    unfolding reported_def by (intro CollectI case_prodI exI [of _ "[n]"] exI [of _ nd]) simp
qed

lemma reported_deeper:
  assumes "seg n" and "e \<in> reported c fsys (join2 d n) (depth + 1)"
  shows "e \<in> reported c fsys d depth"
proof -
  from assms(2) obtain p s ns nd where e: "e = (p, s)" and p: "p = joinAll (join2 d n) ns"
    and ns: "ns \<noteq> []" "list_all seg ns" "length ns + (depth + 1) \<le> 11"
    and nd: "lookup fsys p = Some nd" "n_kind nd = RegularFile" "\<not> n_link nd" "n_size nd = s"
      "largeFileThreshold (config c) \<le> int s"
    by (auto simp: reported_def)
  from p have "p = joinAll d (n # ns)" by (simp add: joinAll_def)
  moreover from ns assms(1) have "n # ns \<noteq> []" "list_all seg (n # ns)"
    "length (n # ns) + depth \<le> 11" by simp_all
  ultimately show ?thesis
    using nd unfolding reported_def e
    by (intro CollectI case_prodI exI [of _ "n # ns"] exI [of _ nd]) simp
qed

lemma traverse_sound:
  "set (traverseDirectory c fsys d found depth) \<subseteq> set found \<union> reported c fsys d depth"
proof (induction c fsys d found depth rule: traverseDirectory.induct)
  case (1 c fsys dirPath found depth)
  show ?case
  proof (cases "depth > 10")
    case True
    then show ?thesis by (simp add: traverseDirectory.simps [of c fsys dirPath found depth])
  next
    case shallow: False
    show ?thesis
    proof (cases "readdir_withFileTypes fsys dirPath")
      case (Inl e)
      with shallow show ?thesis
        by (simp add: traverseDirectory.simps [of c fsys dirPath found depth])
    next
      case (Inr items)
      let ?step = "\<lambda>item acc.
                     if shouldSkipPath c (join2 dirPath (d_name item)) (d_name item) then acc
                     else if d_kind item = RegularFile then
                       (case stat fsys (join2 dirPath (d_name item)) of
                          Inl e \<Rightarrow> acc
                        | Inr stats \<Rightarrow>
                            if int (n_size stats) \<ge> largeFileThreshold (config c)
                            then acc @ [(join2 dirPath (d_name item), n_size stats)]
                            else acc)
                     else if d_kind item = Directory then
                       traverseDirectory c fsys (join2 dirPath (d_name item)) acc (depth + 1)
                     else acc"
      have step: "set (?step item acc) \<subseteq> set acc \<union> reported c fsys dirPath depth"
        if "item \<in> set items" for item acc
      proof -
        from Inr that have sg: "seg (d_name item)" by (rule dirent_seg)
        show ?thesis
        proof (cases "shouldSkipPath c (join2 dirPath (d_name item)) (d_name item)")
          case True
          then show ?thesis by simp
        next
          case keep: False
          show ?thesis
          proof (cases "d_kind item")
            case RegularFile
            with dirent_node [OF Inr that] obtain nd where
              nd: "lookup fsys (join2 dirPath (d_name item)) = Some nd"
                "n_kind nd = RegularFile" "\<not> n_link nd" by auto
            show ?thesis
            proof (cases "largeFileThreshold (config c) \<le> int (n_size nd)")
              case True
              from shallow have "depth \<le> 10" by simp
              from reported_file [OF sg this nd True]
              show ?thesis using keep RegularFile nd True by (simp add: stat_def)
            next
              case False
              with keep RegularFile nd show ?thesis by (simp add: stat_def)
            qed
          next
            case Directory
            have "set (traverseDirectory c fsys (join2 dirPath (d_name item)) acc (depth + 1))
                    \<subseteq> set acc \<union> reported c fsys (join2 dirPath (d_name item)) (depth + 1)"
              using "1.IH" [OF shallow Inr that keep _ Directory] Directory by simp
            with reported_deeper [OF sg] keep Directory show ?thesis
              by auto
          next
            case Other
            with keep show ?thesis by simp
          qed
        qed
      qed
      have "set (fold ?step items found) \<subseteq> set found \<union> reported c fsys dirPath depth"
        by (rule fold_subset) (rule step)
      with shallow Inr show ?thesis
        by (simp add: traverseDirectory.simps [of c fsys dirPath found depth])
    qed
  qed
qed

lemma scan_sound:
  assumes "(p, s) \<in> set (findLargeFilesInPath c fsys seed)"
  shows "\<exists>ns nd. p = joinAll seed ns \<and> ns \<noteq> [] \<and> list_all seg ns \<and> length ns \<le> 11
           \<and> lookup fsys p = Some nd \<and> n_kind nd = RegularFile \<and> \<not> n_link nd
           \<and> n_size nd = s \<and> largeFileThreshold (config c) \<le> int s"
  using assms traverse_sound [of c fsys seed "[]" 0]
  by (auto simp: findLargeFilesInPath_def reported_def)

text \<open>The task scans every seed that exists, puts the results together and sorts them.\<close>

lemma scan_missing: "\<not> pathExists fsys seed \<Longrightarrow> findLargeFilesInPath c fsys seed = []"
  by (simp add: findLargeFilesInPath_def traverseDirectory.simps [of c fsys seed "[]" 0]
      readdir_withFileTypes_def readdir_def pathExists_def access_F_def
      split: option.splits)

lemma concat_guarded:
  assumes "\<And>x. \<not> P x \<Longrightarrow> f x = []"
  shows "set (concat (map (\<lambda>x. if P x then f x else []) xs)) = (\<Union>x \<in> set xs. set (f x))"
proof (induction xs)
  case Nil
  show ?case by simp
next
  case (Cons a xs)
  have "(if P a then f a else []) = f a" using assms [of a] by (cases "P a") simp_all
  then have "concat (map (\<lambda>x. if P x then f x else []) (a # xs))
     = f a @ concat (map (\<lambda>x. if P x then f x else []) xs)" by simp
  with Cons show ?case by (simp del: concat.simps list.map)
qed

lemma find_large_set:
  "set (concat (map (\<lambda>searchPath.
          if pathExists fsys searchPath then findLargeFilesInPath c fsys searchPath else [])
        seeds))
     = (\<Union>seed \<in> set seeds. set (findLargeFilesInPath c fsys seed))"
  by (rule concat_guarded) (rule scan_missing)

lemma sorted_by_size:
  "sorted_wrt (\<lambda>a b. snd b \<le> snd a) (sort_key (\<lambda>(p, sz). - int sz) (xs :: (path \<times> nat) list))"
proof -
  have "sorted (map (\<lambda>(p, sz). - int sz) (sort_key (\<lambda>(p, sz). - int sz) xs))"
    by (rule sorted_sort_key)
  then have "sorted_wrt (\<lambda>a b. (case a of (p, sz) \<Rightarrow> - int sz) \<le> (case b of (p, sz) \<Rightarrow> - int sz))
      (sort_key (\<lambda>(p, sz). - int sz) xs)"
    by (simp add: sorted_map)
  then show ?thesis
    by (rule sorted_wrt_mono_rel [rotated]) (auto simp: case_prod_beta)
qed

lemma find_large_results:
  "\<exists>res. largeFiles (find_large c fsys) = Some res
     \<and> set res = (\<Union>seed \<in> set (getSearchPaths c). set (findLargeFilesInPath c fsys seed))
     \<and> sorted_wrt (\<lambda>a b. snd b \<le> snd a) res"
  unfolding find_large_def Let_def
  by (simp only: CleanupResult.simps option.inject simp_thms ex_simps set_sort
      find_large_set sorted_by_size)

text \<open>
  C4. The depth cap holds for the scan of one seed. Scanning from a seed, a path twelve or
  more names below the seed (a file inside eleven or more nested directories) is never
  among the results of that scan. A regular file inside at most ten nested directories
  below the seed is among them with its size, when the seed and the directories can be
  listed, neither the file nor any of the directories is a symbolic link, none of the
  names is skipped by the scanner and the size reaches the threshold. The task reports
  what the scans of its seeds report, largest first; so every file it reports is a regular
  file of the table (not a symbolic link) with the reported size, which reaches the
  threshold, and lies inside at most ten nested directories below one of the seeds. A
  file may lie deeper than that below one seed and still be reported, through a seed that
  is nearer to it.
\<close>

theorem depth_cap:
  "(12 \<le> length ns \<and> list_all seg ns \<longrightarrow>
      joinAll seed ns \<notin> fst ` set (findLargeFilesInPath c fsys seed))
   \<and> (length ds \<le> 10 \<and> chain_ok c fsys seed ds \<and> seg f
       \<and> \<not> shouldSkipPath c (joinAll seed (ds @ [f])) f
       \<and> lookup fsys (joinAll seed (ds @ [f])) = Some nd
       \<and> n_kind nd = RegularFile \<and> \<not> n_link nd
       \<and> largeFileThreshold (config c) \<le> int (n_size nd) \<longrightarrow>
      (joinAll seed (ds @ [f]), n_size nd) \<in> set (findLargeFilesInPath c fsys seed))
   \<and> (\<exists>res. largeFiles (find_large c fsys) = Some res
         \<and> set res = (\<Union>seed \<in> set (getSearchPaths c). set (findLargeFilesInPath c fsys seed))
         \<and> sorted_wrt (\<lambda>a b. snd b \<le> snd a) res
         \<and> (\<forall>(p, s) \<in> set res.
               \<exists>seed \<in> set (getSearchPaths c). \<exists>ns nd.
                 p = joinAll seed ns \<and> ns \<noteq> [] \<and> length ns \<le> 11 \<and> list_all seg ns
                 \<and> lookup fsys p = Some nd \<and> n_kind nd = RegularFile \<and> \<not> n_link nd
                 \<and> n_size nd = s \<and> largeFileThreshold (config c) \<le> int s))"
proof (intro conjI impI)
  assume "12 \<le> length ns \<and> list_all seg ns"
  then show "joinAll seed ns \<notin> fst ` set (findLargeFilesInPath c fsys seed)"
    using too_deep_not_found [of ns seed c fsys] by simp
next
  assume "length ds \<le> 10 \<and> chain_ok c fsys seed ds \<and> seg f
       \<and> \<not> shouldSkipPath c (joinAll seed (ds @ [f])) f
       \<and> lookup fsys (joinAll seed (ds @ [f])) = Some nd
       \<and> n_kind nd = RegularFile \<and> \<not> n_link nd
       \<and> largeFileThreshold (config c) \<le> int (n_size nd)"
  then show "(joinAll seed (ds @ [f]), n_size nd) \<in> set (findLargeFilesInPath c fsys seed)"
    using traverse_chain [of ds 0 c fsys seed f nd "[]"]
    by (simp add: findLargeFilesInPath_def)
next
  from find_large_results [of c fsys] obtain res where
    res: "largeFiles (find_large c fsys) = Some res"
      "set res = (\<Union>seed \<in> set (getSearchPaths c). set (findLargeFilesInPath c fsys seed))"
      "sorted_wrt (\<lambda>a b. snd b \<le> snd a) res"
    by blast
  have "\<exists>seed \<in> set (getSearchPaths c). \<exists>ns nd.
          p = joinAll seed ns \<and> ns \<noteq> [] \<and> length ns \<le> 11 \<and> list_all seg ns
          \<and> lookup fsys p = Some nd \<and> n_kind nd = RegularFile \<and> \<not> n_link nd
          \<and> n_size nd = s \<and> largeFileThreshold (config c) \<le> int s"
    if "(p, s) \<in> set res" for p s
  proof -
    from that res(2) obtain seed where seed: "seed \<in> set (getSearchPaths c)"
      and "(p, s) \<in> set (findLargeFilesInPath c fsys seed)" by auto
    from scan_sound [OF this(2)] seed show ?thesis by blast
  qed
  with res show "\<exists>res. largeFiles (find_large c fsys) = Some res
         \<and> set res = (\<Union>seed \<in> set (getSearchPaths c). set (findLargeFilesInPath c fsys seed))
         \<and> sorted_wrt (\<lambda>a b. snd b \<le> snd a) res
         \<and> (\<forall>(p, s) \<in> set res.
               \<exists>seed \<in> set (getSearchPaths c). \<exists>ns nd.
                 p = joinAll seed ns \<and> ns \<noteq> [] \<and> length ns \<le> 11 \<and> list_all seg ns
                 \<and> lookup fsys p = Some nd \<and> n_kind nd = RegularFile \<and> \<not> n_link nd
                 \<and> n_size nd = s \<and> largeFileThreshold (config c) \<le> int s)"
    by blast
qed

lemmas scan_defs = shouldSkipPath_def systemDirs_def linuxSkipPaths_def macosSkipPaths_def
  windowsSkipPaths_def listable_def seg_def

theorem depth_cap_witness:
  "12 \<le> length [''a'', ''b'', ''c'', ''d'', ''e'', ''f'', ''g'', ''h'', ''i'', ''j'', ''k'', ''deep.iso'']
   \<and> list_all seg [''a'', ''b'', ''c'', ''d'', ''e'', ''f'', ''g'', ''h'', ''i'', ''j'', ''k'', ''deep.iso'']
   \<and> lookup deep_fs ''/home/u/a/b/c/d/e/f/g/h/i/j/k/deep.iso'' = Some (file_node 3000000000 0)
   \<and> ''/home/u/a/b/c/d/e/f/g/h/i/j/k/deep.iso''
        \<notin> fst ` set (findLargeFilesInPath (linux_ctx False) deep_fs ''/home/u'')
   \<and> chain_ok (linux_ctx False) deep_fs ''/home/u''
        [''a'', ''b'', ''c'', ''d'', ''e'', ''f'', ''g'', ''h'', ''i'', ''j'']
   \<and> lookup deep_fs ''/home/u/a/b/c/d/e/f/g/h/i/j/big.iso'' = Some (file_node 2000000000 0)
   \<and> (''/home/u/a/b/c/d/e/f/g/h/i/j/big.iso'', 2000000000)
        \<in> set (findLargeFilesInPath (linux_ctx False) deep_fs ''/home/u'')
   \<and> ''/home/u'' \<in> set (getSearchPaths (linux_ctx False))
   \<and> (\<exists>res. largeFiles (find_large (linux_ctx False) deep_fs) = Some res
         \<and> (''/home/u/a/b/c/d/e/f/g/h/i/j/big.iso'', 2000000000) \<in> set res)"
proof -
  let ?ns = "[''a'', ''b'', ''c'', ''d'', ''e'', ''f'', ''g'', ''h'', ''i'', ''j'', ''k'', ''deep.iso'']"
  let ?ds = "[''a'', ''b'', ''c'', ''d'', ''e'', ''f'', ''g'', ''h'', ''i'', ''j'']"
  have segs: "list_all seg ?ns" and f: "seg ''big.iso''"
    by (simp_all add: seg_def sep_def)
  have deep: "joinAll ''/home/u'' ?ns = ''/home/u/a/b/c/d/e/f/g/h/i/j/k/deep.iso''"
    and big: "joinAll ''/home/u'' (?ds @ [''big.iso'']) = ''/home/u/a/b/c/d/e/f/g/h/i/j/big.iso''"
    by (simp_all add: joinAll_def join2_def dir_prefix_def sep_def)
  have l1: "lookup deep_fs ''/home/u/a/b/c/d/e/f/g/h/i/j/k/deep.iso'' = Some (file_node 3000000000 0)"
    and l2: "lookup deep_fs ''/home/u/a/b/c/d/e/f/g/h/i/j/big.iso'' = Some (file_node 2000000000 0)"
    by (simp_all add: lookup_def deep_fs_def)
  have chain: "chain_ok (linux_ctx False) deep_fs ''/home/u'' ?ds"
    by (simp add: scan_defs ctx_defs deep_fs_def lookup_def join2_def dir_prefix_def sep_def
        startsWith_def dir_node_def)
  have keep: "\<not> shouldSkipPath (linux_ctx False) ''/home/u/a/b/c/d/e/f/g/h/i/j/big.iso'' ''big.iso''"
    by (simp add: scan_defs ctx_defs startsWith_def)
  have big_enough: "largeFileThreshold (config (linux_ctx False)) \<le> int (n_size (file_node 2000000000 0))"
    and reg: "n_kind (file_node 2000000000 0) = RegularFile" "\<not> n_link (file_node 2000000000 0)"
    by (simp_all add: ctx_defs file_node_def)
  have home: "''/home/u'' \<in> set (getSearchPaths (linux_ctx False))"
    by (simp add: getSearchPaths_def ctx_defs)
  note cap = depth_cap [where ns = ?ns and seed = "''/home/u''" and c = "linux_ctx False"
      and fsys = deep_fs and ds = ?ds and f = "''big.iso''" and nd = "file_node 2000000000 0",
      unfolded deep big]
  from cap segs have 1: "''/home/u/a/b/c/d/e/f/g/h/i/j/k/deep.iso''
        \<notin> fst ` set (findLargeFilesInPath (linux_ctx False) deep_fs ''/home/u'')"
    by simp
  from cap chain f keep l2 reg big_enough
  have 2: "(''/home/u/a/b/c/d/e/f/g/h/i/j/big.iso'', n_size (file_node 2000000000 0))
        \<in> set (findLargeFilesInPath (linux_ctx False) deep_fs ''/home/u'')"
    by simp
  from cap obtain res where res: "largeFiles (find_large (linux_ctx False) deep_fs) = Some res"
    "set res = (\<Union>seed \<in> set (getSearchPaths (linux_ctx False)).
                  set (findLargeFilesInPath (linux_ctx False) deep_fs seed))"
    by blast
  from res(2) home 2 have "(''/home/u/a/b/c/d/e/f/g/h/i/j/big.iso'',
      n_size (file_node 2000000000 0)) \<in> set res" by blast
  with res(1) have 3: "\<exists>res. largeFiles (find_large (linux_ctx False) deep_fs) = Some res
         \<and> (''/home/u/a/b/c/d/e/f/g/h/i/j/big.iso'', 2000000000) \<in> set res"
    by (auto simp: file_node_def)
  from 1 2 3 segs l1 l2 chain home show ?thesis by (simp add: file_node_def)
qed

text \<open>
  C4 as stated, for every seed and the results of the task, fails: the task puts the scans
  of all its seeds together, and the seeds are nested. The home directory is a seed and so
  is its \<open>Documents\<close> folder; a large file inside eleven nested directories below the home
  directory, the first of them \<open>Documents\<close>, is not found by the scan of the seed \<open>/home/u\<close>
  and is reported by the task all the same.
\<close>

theorem depth_cap_counterexample:
  "''/home/u'' \<in> set (getSearchPaths (linux_ctx False))
   \<and> joinAll ''/home/u''
        [''Documents'', ''a'', ''b'', ''c'', ''d'', ''e'', ''f'', ''g'', ''h'', ''i'', ''j'', ''deep.iso'']
       = ''/home/u/Documents/a/b/c/d/e/f/g/h/i/j/deep.iso''
   \<and> findLargeFilesInPath (linux_ctx False) nested_fs ''/home/u'' = []
   \<and> largeFiles (find_large (linux_ctx False) nested_fs)
       = Some [(''/home/u/Documents/a/b/c/d/e/f/g/h/i/j/deep.iso'', 3000000000)]"
  by (simp add: find_large_def getSearchPaths_def findLargeFilesInPath_def
      traverseDirectory.simps scan_defs ctx_defs nested_fs_def fs_defs joinAll_def
      startsWith_def Let_def)

subsection \<open>The downloads categorizer\<close>











subsection \<open>The trash and the exclusions\<close>

lemmas clean_defs = delete_step_def rmdir_step_def per_path_def no_counts_def add_counts_def
  deleteFile_def deleteFile_try_def deleteDirectory_def deleteDirectory_try_def
  isFileOldEnough_def

lemmas trash_defs = TrashCleaner_clean_def getTrashPaths_def cleanTrashPath_def
  emptyTrashDirectory_def cleanLinuxTrash_def empty_tree_def

text \<open>
  C2. On the Linux trash fixture the four entries are deleted, and \<open>cleanLinuxTrash\<close>
  counts them (4 files, 471 bytes), but \<open>emptyTrashDirectory\<close> drops that result: the task
  reports \<open>filesDeleted = 0\<close> and \<open>spaceSaved = 0\<close>.
\<close>

theorem linux_trash_counts_dropped:
  "TrashCleaner_clean (linux_ctx False) trash_fs
     = (\<lparr>filesDeleted = 0, spaceSaved = 0, task = ''trash'', filesOrganized = None,
         largeFiles = None, res_errors = []\<rparr>,
        [(''/home/u/.local/share/Trash'', dir_node),
         (''/home/u/.local/share/Trash/files'', dir_node),
         (''/home/u/.local/share/Trash/info'', dir_node)])
   \<and> fst (cleanLinuxTrash (linux_ctx False) \<lparr>fs = trash_fs, errors = []\<rparr>
            ''/home/u/.local/share/Trash'')
     = \<lparr>filesDeleted = 4, spaceSaved = 471\<rparr>"
  by (simp add: trash_defs clean_defs ctx_defs trash_fs_def fs_defs glob_defs Let_def)

text \<open>
  C3. With the exclusion \<open>important-folder\<close> configured, cleaning \<open>/tmp\<close> deletes
  \<open>/tmp/important-folder/session.tmp\<close> (and then the emptied folder), although the path
  contains the exclusion: \<open>findFiles\<close> hands the exclusions to the glob engine as \<open>ignore\<close>
  patterns, and a pattern without wildcards matches only a path equal to it.
\<close>

theorem exclusion_passed_as_glob:
  "exclusions (config excl_ctx) = [''important-folder'']
   \<and> str_includes ''/tmp/important-folder/session.tmp'' ''important-folder''
   \<and> lookup excl_fs ''/tmp/important-folder/session.tmp'' = Some (file_node 7 0)
   \<and> cleanTempPath excl_ctx \<lparr>fs = excl_fs, errors = []\<rparr> ''/tmp''
       = (\<lparr>filesDeleted = 2, spaceSaved = 7\<rparr>, \<lparr>fs = [(''/tmp'', dir_node)], errors = []\<rparr>)"
  by (simp add: cleanTempPath_def tempFilePatterns_def clean_defs excl_ctx_def ctx_defs
      excl_fs_def fs_defs glob_defs Let_def)

text \<open>Beyond the fixture: off macOS the trash task reports zero counts whatever it deletes.\<close>

lemma emptyTrashDirectory_zero:
  "osType c \<noteq> MacOS \<Longrightarrow> fst (emptyTrashDirectory c st p) = no_counts"
  by (cases "osType c") (simp_all add: emptyTrashDirectory_def case_prod_beta)

lemma fold_fst_keeps:
  assumes "\<And>x acc. fst acc = z \<Longrightarrow> fst (step x acc) = z" and "fst a = z"
  shows "fst (fold step xs a) = z"
  using assms(2) by (induction xs arbitrary: a) (simp_all add: assms(1))

lemma add_no_counts: "add_counts no_counts no_counts = no_counts"
  by (simp add: add_counts_def no_counts_def)

lemma cleanTrashPath_zero:
  assumes "osType c \<noteq> MacOS"
  shows "fst (cleanTrashPath c st p) = no_counts"
proof -
  let ?step = "\<lambda>matchedPath acc.
                   case acc of (cnt, st2) \<Rightarrow>
                   case emptyTrashDirectory c st2 matchedPath of (result, st3) \<Rightarrow>
                     (add_counts cnt result, st3)"
  have step: "fst (?step x acc) = no_counts" if "fst acc = no_counts" for x acc
    using that emptyTrashDirectory_zero [OF assms, of "snd acc" x]
    by (cases acc) (simp add: case_prod_beta add_no_counts)
  have "fst (fold ?step xs (no_counts, s)) = no_counts" for xs s
    by (rule fold_fst_keeps [where z = no_counts]) (simp_all add: step)
  then show ?thesis
    using emptyTrashDirectory_zero [OF assms, of st p]
    by (simp add: cleanTrashPath_def case_prod_beta add_no_counts)
qed

lemma trash_counts_always_zero:
  assumes "osType c \<noteq> MacOS"
  shows "filesDeleted (fst (TrashCleaner_clean c fsys)) = 0
         \<and> spaceSaved (fst (TrashCleaner_clean c fsys)) = 0"
proof -
  have step: "fst (per_path (cleanTrashPath c) p acc) = no_counts"
    if "fst acc = no_counts" for p acc
    using that cleanTrashPath_zero [OF assms, of "snd acc" p]
    by (cases acc) (simp add: per_path_def case_prod_beta add_no_counts)
  have "fst (fold (per_path (cleanTrashPath c)) (getTrashPaths c)
               (no_counts, \<lparr>fs = fsys, errors = []\<rparr>)) = no_counts"
    by (rule fold_fst_keeps [where z = no_counts]) (simp_all add: step)
  then show ?thesis
    by (simp add: TrashCleaner_clean_def case_prod_beta no_counts_def)
qed

text \<open>What \<open>str_includes\<close> computes is the substring relation.\<close>

lemma str_includes_iff: "str_includes s t \<longleftrightarrow> (\<exists>a b. s = a @ t @ b)"
proof (induction s)
  case Nil
  show ?case by simp
next
  case (Cons ch s)
  show ?case
  proof
    assume "str_includes (ch # s) t"
    then consider "prefix t (ch # s)" | "str_includes s t" by auto
    then show "\<exists>a b. ch # s = a @ t @ b"
    proof cases
      case 1
      then obtain b where "ch # s = [] @ t @ b" by (auto simp: prefix_def)
      then show ?thesis by blast
    next
      case 2
      with Cons.IH obtain a b where "s = a @ t @ b" by blast
      then have "ch # s = (ch # a) @ t @ b" by simp
      then show ?thesis by blast
    qed
  next
    assume "\<exists>a b. ch # s = a @ t @ b"
    then obtain a b where eq: "ch # s = a @ t @ b" by blast
    show "str_includes (ch # s) t"
    proof (cases a)
      case Nil
      with eq have "prefix t (ch # s)" by (simp add: prefix_def)
      then show ?thesis by simp
    next
      case (Cons x a')
      with eq have "s = a' @ t @ b" by simp
      with Cons.IH have "str_includes s t" by blast
      then show ?thesis by simp
    qed
  qed
qed

text \<open>The large-file scan does apply the exclusions as substrings.\<close>

lemma traverse_excludes:
  "set (traverseDirectory c fsys d found depth)
     \<subseteq> set found \<union> {(p, s). \<forall>x \<in> set (exclusions (config c)). \<not> str_includes p x}"
proof (induction c fsys d found depth rule: traverseDirectory.induct)
  case (1 c fsys dirPath found depth)
  let ?G = "{(p, s). \<forall>x \<in> set (exclusions (config c)). \<not> str_includes p x}"
  show ?case
  proof (cases "depth > 10")
    case True
    then show ?thesis by (simp add: traverseDirectory.simps [of c fsys dirPath found depth])
  next
    case shallow: False
    show ?thesis
    proof (cases "readdir_withFileTypes fsys dirPath")
      case (Inl e)
      with shallow show ?thesis
        by (simp add: traverseDirectory.simps [of c fsys dirPath found depth])
    next
      case (Inr items)
      let ?step = "\<lambda>item acc.
                     if shouldSkipPath c (join2 dirPath (d_name item)) (d_name item) then acc
                     else if d_kind item = RegularFile then
                       (case stat fsys (join2 dirPath (d_name item)) of
                          Inl e \<Rightarrow> acc
                        | Inr stats \<Rightarrow>
                            if int (n_size stats) \<ge> largeFileThreshold (config c)
                            then acc @ [(join2 dirPath (d_name item), n_size stats)]
                            else acc)
                     else if d_kind item = Directory then
                       traverseDirectory c fsys (join2 dirPath (d_name item)) acc (depth + 1)
                     else acc"
      have step: "set (?step item acc) \<subseteq> set acc \<union> ?G" if "item \<in> set items" for item acc
      proof (cases "shouldSkipPath c (join2 dirPath (d_name item)) (d_name item)")
        case True
        then show ?thesis by simp
      next
        case keep: False
        then have ok: "\<forall>x \<in> set (exclusions (config c)).
                         \<not> str_includes (join2 dirPath (d_name item)) x"
          by (auto simp: shouldSkipPath_def list_ex_iff split: if_splits)
        show ?thesis
        proof (cases "d_kind item")
          case RegularFile
          with keep ok show ?thesis by (auto split: sum.splits)
        next
          case Directory
          with keep "1.IH" [OF shallow Inr that keep _ Directory, of acc] show ?thesis
            by simp
        next
          case Other
          with keep show ?thesis by simp
        qed
      qed
      have "set (fold ?step items found) \<subseteq> set found \<union> ?G"
        by (rule fold_subset) (rule step)
      with shallow Inr show ?thesis
        by (simp add: traverseDirectory.simps [of c fsys dirPath found depth])
    qed
  qed
qed

lemma large_files_respect_exclusions:
  "(p, s) \<in> set (findLargeFilesInPath c fsys seed) \<Longrightarrow> x \<in> set (exclusions (config c)) \<Longrightarrow>
     \<not> str_includes p x"
  using traverse_excludes [of c fsys seed "[]" 0]
  by (auto simp: findLargeFilesInPath_def)

subsection \<open>The age filter inside the temp cleaner\<close>




















































text \<open>
  The filter at work inside \<open>cleanTempPath\<close>, with \<open>maxFileAge = 5\<close>: the file that is
  exactly five days old stays, the one a day older is deleted.
\<close>

lemma age_filter_in_cleanTempPath:
  "cleanTempPath age_ctx \<lparr>fs = age_fs, errors = []\<rparr> ''/tmp''
     = (\<lparr>filesDeleted = 1, spaceSaved = 20\<rparr>,
        \<lparr>fs = [(''/tmp'', dir_node), (''/tmp/five.tmp'', file_node 10 (95 * 86400000))],
         errors = []\<rparr>)"
  by (simp add: cleanTempPath_def tempFilePatterns_def clean_defs age_ctx_def ctx_defs
      age_fs_def fs_defs glob_defs Let_def)

end
